theory Spec2Isabelle
  imports Main "HOL-Library.Code_Target_Nat"
begin

section \<open>Strings\<close>

text \<open>
  A Python string is a sequence of Unicode code points, and is modelled as the list of
  their numbers. \<open>ascii\<close> turns a literal of ASCII characters into such a list.
\<close>

type_synonym ustring = "nat list"

definition ascii :: "string \<Rightarrow> ustring" where
  "ascii s = map of_char s"

definition newline :: nat where
  "newline = 0x0A"

definition equals_sign :: nat where
  "equals_sign = 0x3D"

definition slash :: nat where
  "slash = 0x2F"


text \<open>
  The code points for which \<^verbatim>\<open>str.isspace\<close> holds; \<^verbatim>\<open>str.strip\<close> without an argument
  removes exactly these from both ends.
\<close>

definition whitespace :: "nat list" where
  "whitespace =
     [0x09, 0x0A, 0x0B, 0x0C, 0x0D, 0x1C, 0x1D, 0x1E, 0x1F, 0x20, 0x85, 0xA0, 0x1680,
      0x2000, 0x2001, 0x2002, 0x2003, 0x2004, 0x2005, 0x2006, 0x2007, 0x2008, 0x2009,
      0x200A, 0x2028, 0x2029, 0x202F, 0x205F, 0x3000]"

definition isspace :: "nat \<Rightarrow> bool" where
  "isspace c = (c \<in> set whitespace)"

definition lstrip :: "ustring \<Rightarrow> ustring" where
  "lstrip s = dropWhile isspace s"

definition rstrip :: "ustring \<Rightarrow> ustring" where
  "rstrip s = rev (dropWhile isspace (rev s))"

text \<open>\<^verbatim>\<open>s.strip()\<close>\<close>

definition strip :: "ustring \<Rightarrow> ustring" where
  "strip s = rstrip (lstrip s)"

text \<open>
  \<^verbatim>\<open>str.upper\<close> is a function of the Python library with a table of its own, in which
  one character can become several. It is a parameter \<open>upper\<close> of the model wherever the
  program calls it, and nothing is assumed of it beyond what a theorem states.
  \<open>ascii_upper\<close> is what it does to a string of ASCII characters, for the examples.

  \<^verbatim>\<open>str.lower\<close> is only used by \<^verbatim>\<open>main\<close>, to compare the end of the path with
  \<^verbatim>\<open>.flac\<close>. No code point outside ASCII has any of the characters of \<^verbatim>\<open>.flac\<close> in its
  lower case, so for that comparison it is enough to convert the 26 ASCII capitals,
  which is what \<open>lower\<close> does.
\<close>

definition ascii_upper :: "ustring \<Rightarrow> ustring" where
  "ascii_upper s = map (\<lambda>c. if 0x61 \<le> c \<and> c \<le> 0x7A then c - 0x20 else c) s"

definition lower_char :: "nat \<Rightarrow> nat" where
  "lower_char c = (if 0x41 \<le> c \<and> c \<le> 0x5A then c + 0x20 else c)"

definition lower :: "ustring \<Rightarrow> ustring" where
  "lower s = map lower_char s"

text \<open>\<^verbatim>\<open>s.split(sep)\<close> for a one-character separator: never the empty list.\<close>

fun split_on :: "nat \<Rightarrow> ustring \<Rightarrow> ustring list" where
  "split_on sep [] = [[]]"
| "split_on sep (c # cs) =
     (if c = sep then [] # split_on sep cs
      else (case split_on sep cs of [] \<Rightarrow> [[c]] | l # ls \<Rightarrow> (c # l) # ls))"

text \<open>\<^verbatim>\<open>sep.join(parts)\<close>\<close>

fun join :: "ustring \<Rightarrow> ustring list \<Rightarrow> ustring" where
  "join sep [] = []"
| "join sep [l] = l"
| "join sep (l # ls) = l @ sep @ join sep ls"

text \<open>
  \<^verbatim>\<open>key, value = line.split('=', 1)\<close> on a line that contains \<^verbatim>\<open>=\<close>: the text before
  the first \<^verbatim>\<open>=\<close> and the text after it.
\<close>

definition has_eq :: "ustring \<Rightarrow> bool" where
  "has_eq line = (equals_sign \<in> set line)"

definition key_of :: "ustring \<Rightarrow> ustring" where
  "key_of line = takeWhile (\<lambda>c. c \<noteq> equals_sign) line"

definition value_of :: "ustring \<Rightarrow> ustring" where
  "value_of line = drop 1 (dropWhile (\<lambda>c. c \<noteq> equals_sign) line)"


text \<open>\<^verbatim>\<open>os.path.basename\<close> on a POSIX path: what follows the last slash.\<close>

definition basename :: "ustring \<Rightarrow> ustring" where
  "basename p = rev (takeWhile (\<lambda>c. c \<noteq> slash) (rev p))"

section \<open>The application state and its environment\<close>

text \<open>
  \<^verbatim>\<open>subprocess.run\<close> either completes with a return code, the captured standard output
  and the captured standard error, or raises \<^verbatim>\<open>FileNotFoundError\<close> (no executable), or
  raises some other exception; the string is the exception's text. The captured output
  is the text as \<^verbatim>\<open>text=True\<close> hands it over, decoded and with its line ends translated.
  The external tool is a parameter of the model: a function from the argument vector and
  the state of the outside world to such an outcome and the new state of the world.
\<close>

datatype proc = Completed int ustring ustring | NoExecutable ustring | Crashed ustring

type_synonym 'w tool = "ustring list \<Rightarrow> 'w \<Rightarrow> proc \<times> 'w"

datatype exn =
    CalledProcessError "ustring list" int ustring
  | FileNotFoundError ustring
  | OtherError ustring

text \<open>
  The message boxes shown to the user. \<open>ShowErrorExn title prefix e\<close> stands for
  \<^verbatim>\<open>messagebox.showerror(title, f"{prefix}{e}")\<close>, with the text of the exception left
  symbolic.
\<close>

datatype dialog =
    ShowWarning ustring ustring
  | ShowError ustring ustring
  | ShowErrorExn ustring ustring exn
  | ShowInfo ustring ustring

text \<open>
  The fields of \<^verbatim>\<open>MetaFLACGUI\<close> that the tag operations read and write, with the
  contents of the widgets in place of the widgets: \<open>tag_entries\<close> is the dictionary from
  tag name to the text of its entry widget, in insertion order; \<open>custom_tags_text\<close> is
  the content of the text area (Tk appends a line break to it when it is read). The
  record also keeps what the operations do to the outside: the dialogs shown, the
  argument vector of every \<^verbatim>\<open>subprocess.run\<close> call in the order of the calls (also of a
  call that raises), the state of the outside world, and whether \<^verbatim>\<open>root.quit()\<close> was
  called.
\<close>

record 'w app =
  current_file :: "ustring option"
  tag_entries :: "(ustring \<times> ustring) list"
  custom_tags_text :: ustring
  status_var :: ustring
  success_var :: ustring
  dialogs :: "dialog list"
  invocations :: "ustring list list"
  world :: 'w
  quit_called :: bool

definition common_tags :: "ustring list" where
  "common_tags =
     [ascii ''BPM'', ascii ''GENRE'', ascii ''TITLE'', ascii ''ARTIST'', ascii ''ALBUM'', ascii ''DATE'', ascii ''TRACKNUMBER'',
      ascii ''ALBUMARTIST'', ascii ''COMPOSER'', ascii ''PERFORMER'', ascii ''CONDUCTOR'', ascii ''COMMENT'',
      ascii ''DISCNUMBER'', ascii ''TOTALTRACKS'', ascii ''TOTALDISCS'', ascii ''MUSICBRAINZ_TRACKID'',
      ascii ''MUSICBRAINZ_ALBUMID'', ascii ''MUSICBRAINZ_ARTISTID'', ascii ''ISRC'']"

text \<open>
  The state after \<^verbatim>\<open>__init__\<close> has run \<^verbatim>\<open>setup_ui\<close>: one empty entry per common tag, an
  empty text area, and the initial status line.
\<close>

definition setup_ui :: "ustring option \<Rightarrow> 'w \<Rightarrow> 'w app" where
  "setup_ui initial_file w =
     \<lparr>current_file = initial_file,
      tag_entries = map (\<lambda>tag. (tag, [])) common_tags,
      custom_tags_text = [],
      status_var = ascii ''Ready - Select a FLAC file to begin'',
      success_var = [],
      dialogs = [],
      invocations = [],
      world = w,
      quit_called = False\<rparr>"

text \<open>\<^verbatim>\<open>subprocess.run(argv, check=True, ...)\<close>: the captured output, or the exception.\<close>

definition run :: "'w tool \<Rightarrow> ustring list \<Rightarrow> 'w app \<Rightarrow> (exn + ustring) \<times> 'w app" where
  "run tool argv s =
     (case tool argv (world s) of
        (r, w') \<Rightarrow>
          (case r of
             Completed rc out err \<Rightarrow>
               if rc \<noteq> 0 then Inl (CalledProcessError argv rc err) else Inr out
           | NoExecutable m \<Rightarrow> Inl (FileNotFoundError m)
           | Crashed m \<Rightarrow> Inl (OtherError m),
           s\<lparr>invocations := invocations s @ [argv], world := w'\<rparr>))"

definition show_dialog :: "dialog \<Rightarrow> 'w app \<Rightarrow> 'w app" where
  "show_dialog d s = s\<lparr>dialogs := dialogs s @ [d]\<rparr>"

definition install_hint :: ustring where
  "install_hint =
     ascii ''metaflac command not found. Please install flac package.'' @ [newline] @
     ascii ''On Ubuntu/Debian: sudo apt install flac'' @ [newline] @
     ascii ''On Fedora/RHEL: sudo dnf install flac'' @ [newline] @
     ascii ''On Arch: sudo pacman -S flac''"

text \<open>
  \<^verbatim>\<open>check_metaflac\<close>: \<open>Inr\<close> is the returned boolean, \<open>Inl\<close> an exception that the method
  does not catch.
\<close>

definition check_metaflac :: "'w tool \<Rightarrow> 'w app \<Rightarrow> (exn + bool) \<times> 'w app" where
  "check_metaflac tool s =
     (case run tool [ascii ''metaflac'', ascii ''--version''] s of
        (Inr out, s') \<Rightarrow> (Inr True, s')
      | (Inl (CalledProcessError a rc err), s') \<Rightarrow>
          (Inr False, show_dialog (ShowError (ascii ''Error'') install_hint) s')
      | (Inl (FileNotFoundError m), s') \<Rightarrow>
          (Inr False, show_dialog (ShowError (ascii ''Error'') install_hint) s')
      | (Inl (OtherError m), s') \<Rightarrow> (Inl (OtherError m), s'))"

text \<open>\<^verbatim>\<open>clear_form\<close>\<close>

definition clear_form :: "'w app \<Rightarrow> 'w app" where
  "clear_form s =
     s\<lparr>tag_entries := map (\<lambda>(tag, entry). (tag, [])) (tag_entries s),
       custom_tags_text := [],
       success_var := []\<rparr>"

section \<open>Loading\<close>

text \<open>
  Writing into one entry widget: \<^verbatim>\<open>self.tag_entries[key].delete(0, tk.END)\<close> followed by
  \<^verbatim>\<open>self.tag_entries[key].insert(0, value)\<close>. The dictionary itself is not changed.
\<close>

definition set_entry :: "ustring \<Rightarrow> ustring \<Rightarrow> (ustring \<times> ustring) list \<Rightarrow> (ustring \<times> ustring) list" where
  "set_entry key v entries = map (\<lambda>(tag, entry). if tag = key then (tag, v) else (tag, entry)) entries"

text \<open>
  The parsing loop of \<^verbatim>\<open>load_tags\<close> over the lines of the export, threading the entry
  widgets and the local list \<^verbatim>\<open>custom_tags\<close>.
\<close>

fun parse_lines ::
  "(ustring \<Rightarrow> ustring) \<Rightarrow> ustring list \<Rightarrow> (ustring \<times> ustring) list \<Rightarrow> ustring list \<Rightarrow>
     (ustring \<times> ustring) list \<times> ustring list" where
  "parse_lines upper [] entries custom_tags = (entries, custom_tags)"
| "parse_lines upper (line # rest) entries custom_tags =
     (if has_eq line then
        (let key = upper (key_of line); v = value_of line in
         if key \<in> fst ` set entries
         then parse_lines upper rest (set_entry key v entries) custom_tags
         else parse_lines upper rest entries (custom_tags @ [line]))
      else parse_lines upper rest entries custom_tags)"

text \<open>
  \<^verbatim>\<open>load_tags\<close>. The result is \<open>Inr ()\<close> when the method returns and \<open>Inl e\<close> when the
  exception \<open>e\<close> leaves it (only \<^verbatim>\<open>check_metaflac\<close>, which runs outside the
  \<^verbatim>\<open>try\<close>, can let one through).
\<close>

definition load_tags ::
  "(ustring \<Rightarrow> ustring) \<Rightarrow> 'w tool \<Rightarrow> 'w app \<Rightarrow> (exn + unit) \<times> 'w app" where
  "load_tags upper tool s =
     (case current_file s of
        None \<Rightarrow> (Inr (), show_dialog (ShowWarning (ascii ''Warning'') (ascii ''Please select a FLAC file first'')) s)
      | Some file \<Rightarrow>
          if file = [] then
            (Inr (), show_dialog (ShowWarning (ascii ''Warning'') (ascii ''Please select a FLAC file first'')) s)
          else
            (case check_metaflac tool s of
               (Inl e, s1) \<Rightarrow> (Inl e, s1)
             | (Inr available, s1) \<Rightarrow>
                 if \<not> available then (Inr (), s1)
                 else
                   (case run tool [ascii ''metaflac'', ascii ''--export-tags-to=-'', file] (clear_form s1) of
                      (Inr out, s2) \<Rightarrow>
                        (case parse_lines upper (split_on newline (strip out)) (tag_entries s2) [] of
                           (entries, custom_tags) \<Rightarrow>
                             (Inr (),
                              s2\<lparr>tag_entries := entries,
                                 custom_tags_text :=
                                   (if custom_tags \<noteq> [] then join [newline] custom_tags
                                    else custom_tags_text s2),
                                 status_var := ascii ''Loaded tags from '' @ basename file,
                                 success_var := []\<rparr>))
                    | (Inl (CalledProcessError a rc err), s2) \<Rightarrow>
                        (Inr (), show_dialog (ShowError (ascii ''Error'') (ascii ''Failed to load tags: '' @ err)) s2)
                    | (Inl e, s2) \<Rightarrow>
                        (Inr (), show_dialog (ShowErrorExn (ascii ''Error'') (ascii ''Unexpected error: '') e) s2))))"

section \<open>Saving\<close>

definition remove_argv :: "ustring \<Rightarrow> ustring list" where
  "remove_argv file = [ascii ''metaflac'', ascii ''--remove-all-tags'', file]"

definition set_tag_argv :: "ustring \<Rightarrow> ustring \<Rightarrow> ustring list" where
  "set_tag_argv file assignment = [ascii ''metaflac'', ascii ''--set-tag='' @ assignment, file]"

text \<open>The loop over \<^verbatim>\<open>self.tag_entries.items()\<close>; an exception ends it.\<close>

fun set_common_tags ::
  "'w tool \<Rightarrow> ustring \<Rightarrow> (ustring \<times> ustring) list \<Rightarrow> 'w app \<Rightarrow> (exn + unit) \<times> 'w app" where
  "set_common_tags tool file [] s = (Inr (), s)"
| "set_common_tags tool file ((tag, entry) # rest) s =
     (let v = strip entry in
      if v \<noteq> [] then
        (case run tool (set_tag_argv file (tag @ ascii ''='' @ v)) s of
           (Inl e, s') \<Rightarrow> (Inl e, s')
         | (Inr out, s') \<Rightarrow> set_common_tags tool file rest s')
      else set_common_tags tool file rest s)"

text \<open>The loop over the lines of the custom text; an exception ends it.\<close>

fun set_custom_tags ::
  "'w tool \<Rightarrow> ustring \<Rightarrow> ustring list \<Rightarrow> 'w app \<Rightarrow> (exn + unit) \<times> 'w app" where
  "set_custom_tags tool file [] s = (Inr (), s)"
| "set_custom_tags tool file (raw # rest) s =
     (let line = strip raw in
      if line \<noteq> [] \<and> has_eq line then
        (case run tool (set_tag_argv file line) s of
           (Inl e, s') \<Rightarrow> (Inl e, s')
         | (Inr out, s') \<Rightarrow> set_custom_tags tool file rest s')
      else set_custom_tags tool file rest s)"

text \<open>
  The body of the \<^verbatim>\<open>try\<close> block that \<^verbatim>\<open>save_tags\<close> and \<^verbatim>\<open>save_tags_and_exit\<close> share, up to
  the end of the custom tags: \<open>Inl e\<close> when \<open>e\<close> was raised, \<open>Inr ()\<close> when the block got
  through.
\<close>

definition write_tags :: "'w tool \<Rightarrow> ustring \<Rightarrow> 'w app \<Rightarrow> (exn + unit) \<times> 'w app" where
  "write_tags tool file s =
     (case run tool (remove_argv file) s of
        (Inl e, s1) \<Rightarrow> (Inl e, s1)
      | (Inr out, s1) \<Rightarrow>
          (case set_common_tags tool file (tag_entries s1) s1 of
             (Inl e, s2) \<Rightarrow> (Inl e, s2)
           | (Inr u, s2) \<Rightarrow>
               (let custom_text = strip (custom_tags_text s2 @ [newline]) in
                if custom_text \<noteq> [] then set_custom_tags tool file (split_on newline custom_text) s2
                else (Inr (), s2))))"

text \<open>The two \<^verbatim>\<open>except\<close> clauses of the save methods.\<close>

definition save_failed :: "exn \<Rightarrow> dialog" where
  "save_failed e =
     (case e of
        CalledProcessError a rc err \<Rightarrow> ShowErrorExn (ascii ''Error'') (ascii ''Failed to save tags: '') e
      | _ \<Rightarrow> ShowErrorExn (ascii ''Error'') (ascii ''Unexpected error: '') e)"

text \<open>
  \<^verbatim>\<open>save_tags\<close>; \<open>now\<close> is \<^verbatim>\<open>datetime.now().strftime("%Y-%m-%d %H:%M:%S")\<close>.
\<close>

definition save_tags :: "'w tool \<Rightarrow> ustring \<Rightarrow> 'w app \<Rightarrow> (exn + unit) \<times> 'w app" where
  "save_tags tool now s =
     (case current_file s of
        None \<Rightarrow> (Inr (), show_dialog (ShowWarning (ascii ''Warning'') (ascii ''Please select a FLAC file first'')) s)
      | Some file \<Rightarrow>
          if file = [] then
            (Inr (), show_dialog (ShowWarning (ascii ''Warning'') (ascii ''Please select a FLAC file first'')) s)
          else
            (case check_metaflac tool s of
               (Inl e, s1) \<Rightarrow> (Inl e, s1)
             | (Inr available, s1) \<Rightarrow>
                 if \<not> available then (Inr (), s1)
                 else
                   (case write_tags tool file s1 of
                      (Inr u, s2) \<Rightarrow>
                        (Inr (),
                         s2\<lparr>status_var := ascii ''Tags saved to '' @ basename file,
                            success_var := now @ ascii '' - Tags saved successfully!''\<rparr>)
                    | (Inl e, s2) \<Rightarrow> (Inr (), show_dialog (save_failed e) s2))))"

text \<open>\<^verbatim>\<open>save_tags_and_exit\<close>\<close>

definition save_tags_and_exit :: "'w tool \<Rightarrow> 'w app \<Rightarrow> (exn + unit) \<times> 'w app" where
  "save_tags_and_exit tool s =
     (case current_file s of
        None \<Rightarrow> (Inr (), show_dialog (ShowWarning (ascii ''Warning'') (ascii ''Please select a FLAC file first'')) s)
      | Some file \<Rightarrow>
          if file = [] then
            (Inr (), show_dialog (ShowWarning (ascii ''Warning'') (ascii ''Please select a FLAC file first'')) s)
          else
            (case check_metaflac tool s of
               (Inl e, s1) \<Rightarrow> (Inl e, s1)
             | (Inr available, s1) \<Rightarrow>
                 if \<not> available then (Inr (), s1)
                 else
                   (case write_tags tool file s1 of
                      (Inr u, s2) \<Rightarrow> (Inr (), s2\<lparr>quit_called := True\<rparr>)
                    | (Inl e, s2) \<Rightarrow> (Inr (), show_dialog (save_failed e) s2))))"

section \<open>Removing all tags\<close>

text \<open>
  \<^verbatim>\<open>remove_all_tags\<close>; \<open>confirmed\<close> is the user's answer to \<^verbatim>\<open>messagebox.askyesno\<close>. Only
  \<^verbatim>\<open>CalledProcessError\<close> is caught here.
\<close>

definition remove_all_tags :: "'w tool \<Rightarrow> bool \<Rightarrow> 'w app \<Rightarrow> (exn + unit) \<times> 'w app" where
  "remove_all_tags tool confirmed s =
     (case current_file s of
        None \<Rightarrow> (Inr (), show_dialog (ShowWarning (ascii ''Warning'') (ascii ''Please select a FLAC file first'')) s)
      | Some file \<Rightarrow>
          if file = [] then
            (Inr (), show_dialog (ShowWarning (ascii ''Warning'') (ascii ''Please select a FLAC file first'')) s)
          else if \<not> confirmed then (Inr (), s)
          else
            (case check_metaflac tool s of
               (Inl e, s1) \<Rightarrow> (Inl e, s1)
             | (Inr available, s1) \<Rightarrow>
                 if \<not> available then (Inr (), s1)
                 else
                   (case run tool (remove_argv file) s1 of
                      (Inr out, s2) \<Rightarrow>
                        (Inr (),
                         show_dialog (ShowInfo (ascii ''Success'') (ascii ''All tags removed successfully!''))
                           ((clear_form s2)\<lparr>status_var := ascii ''All tags removed from '' @ basename file\<rparr>))
                    | (Inl (CalledProcessError a rc err), s2) \<Rightarrow>
                        (Inr (),
                         show_dialog
                           (ShowErrorExn (ascii ''Error'') (ascii ''Failed to remove tags: '') (CalledProcessError a rc err)) s2)
                    | (Inl e, s2) \<Rightarrow> (Inl e, s2))))"

section \<open>Startup\<close>




section \<open>Reference descriptions\<close>

text \<open>
  The value that loading assigns to a well-known field: the value of the last line whose
  key, in upper case, is the name of the field, if there is such a line.
\<close>

fun last_value :: "(ustring \<Rightarrow> ustring) \<Rightarrow> ustring \<Rightarrow> ustring list \<Rightarrow> ustring option" where
  "last_value upper tag [] = None"
| "last_value upper tag (line # rest) =
     (case last_value upper tag rest of
        Some v \<Rightarrow> Some v
      | None \<Rightarrow> if has_eq line \<and> upper (key_of line) = tag then Some (value_of line) else None)"

text \<open>
  Launching a list of argument vectors one after the other, each as a process of its own,
  up to the first one that raises.
\<close>

fun run_all :: "'w tool \<Rightarrow> ustring list list \<Rightarrow> 'w app \<Rightarrow> (exn + unit) \<times> 'w app" where
  "run_all tool [] s = (Inr (), s)"
| "run_all tool (argv # rest) s =
     (case run tool argv s of
        (Inl e, s') \<Rightarrow> (Inl e, s')
      | (Inr out, s') \<Rightarrow> run_all tool rest s')"

text \<open>
  What the tool does with a list of argument vectors, told without the program: whether
  each of them, launched in turn, completes with status 0, and the world they leave
  behind.
\<close>

fun succeeds :: "'w tool \<Rightarrow> ustring list list \<Rightarrow> 'w \<Rightarrow> bool" where
  "succeeds tool [] w = True"
| "succeeds tool (argv # rest) w =
     (case tool argv w of
        (Completed rc out err, w') \<Rightarrow> rc = 0 \<and> succeeds tool rest w'
      | (NoExecutable m, w') \<Rightarrow> False
      | (Crashed m, w') \<Rightarrow> False)"

fun world_after :: "'w tool \<Rightarrow> ustring list list \<Rightarrow> 'w \<Rightarrow> 'w" where
  "world_after tool [] w = w"
| "world_after tool (argv # rest) w = world_after tool rest (snd (tool argv w))"

text \<open>The text of the entry widget of a tag.\<close>

definition entry_of :: "(ustring \<times> ustring) list \<Rightarrow> ustring \<Rightarrow> ustring" where
  "entry_of entries tag = (case map_of entries tag of Some entry \<Rightarrow> entry | None \<Rightarrow> [])"

text \<open>
  What a save is to launch: remove-all-tags; then, in the fixed order of the well-known
  fields, one set-tag per field whose value is not empty once trimmed, with the trimmed
  value; then, in the order of the custom text, one set-tag per line that contains
  \<^verbatim>\<open>=\<close>, with the trimmed line.
\<close>

definition save_plan :: "ustring \<Rightarrow> (ustring \<times> ustring) list \<Rightarrow> ustring \<Rightarrow> ustring list list" where
  "save_plan file entries custom =
     remove_argv file #
     map (\<lambda>tag. set_tag_argv file (tag @ ascii ''='' @ strip (entry_of entries tag)))
       (filter (\<lambda>tag. strip (entry_of entries tag) \<noteq> []) common_tags) @
     map (\<lambda>line. set_tag_argv file (strip line)) (filter has_eq (split_on newline custom))"

text \<open>The lines of a text that contain \<^verbatim>\<open>=\<close>, each trimmed.\<close>

definition wanted :: "ustring \<Rightarrow> ustring list" where
  "wanted t = map strip (filter has_eq (split_on newline t))"

text \<open>
  The tags that a save that goes through leaves in the file: the well-known fields that
  are not blank, with their trimmed values, and then the custom lines that contain
  \<^verbatim>\<open>=\<close>, trimmed.
\<close>

definition written :: "(ustring \<times> ustring) list \<Rightarrow> ustring \<Rightarrow> ustring list" where
  "written entries custom =
     map (\<lambda>tag. tag @ ascii ''='' @ strip (entry_of entries tag))
       (filter (\<lambda>tag. strip (entry_of entries tag) \<noteq> []) common_tags) @
     wanted custom"

text \<open>
  A line as a save writes it: not empty, no whitespace at either end and no line break
  inside.
\<close>

definition clean :: "ustring \<Rightarrow> bool" where
  "clean line = (line \<noteq> [] \<and> \<not> isspace (hd line) \<and> \<not> isspace (last line) \<and> newline \<notin> set line)"

text \<open>
  The custom list of the tags in the form: the lines of the custom text, none when the
  text is empty.
\<close>

definition custom_lines :: "'w app \<Rightarrow> ustring list" where
  "custom_lines s = (if custom_tags_text s = [] then [] else split_on newline (custom_tags_text s))"

section \<open>Environments\<close>

text \<open>
  The external tool is a parameter of every operation: a theorem holds for whatever the
  tool does, or states what it assumes of the tool's answers. The examples need a tool
  that can be run. \<open>ideal_metaflac\<close> is one: the outside world is a map from the paths of
  the FLAC files to their tags, one \<^verbatim>\<open>KEY=VALUE\<close> text per tag, in the order in which they
  were set; remove-all-tags empties the list, set-tag appends its argument to it without
  looking for duplicates, and the export prints the tags in that order, one per line. A
  path that is not in the map is a file the tool cannot read. What \<^verbatim>\<open>subprocess.run\<close>
  does around the tool is part of the example: an argument with a NUL character or of
  128 KiB or more raises before anything is launched, and the captured output has its
  line ends translated (\<^verbatim>\<open>text=True\<close>).
\<close>

definition carriage_return :: nat where
  "carriage_return = 0x0D"

fun universal_newlines :: "ustring \<Rightarrow> ustring" where
  "universal_newlines [] = []"
| "universal_newlines [c] = (if c = carriage_return then [newline] else [c])"
| "universal_newlines (c # d # cs) =
     (if c = carriage_return \<and> d = newline then newline # universal_newlines cs
      else if c = carriage_return then newline # universal_newlines (d # cs)
      else c # universal_newlines (d # cs))"

definition utf8_size :: "nat \<Rightarrow> nat" where
  "utf8_size c = (if c < 0x80 then 1 else if c < 0x800 then 2 else if c < 0x10000 then 3 else 4)"

definition ideal_metaflac :: "(ustring \<rightharpoonup> ustring list) tool" where
  "ideal_metaflac argv disk =
     (if list_ex (\<lambda>arg. 0 \<in> set arg) argv then (Crashed (ascii ''embedded null byte''), disk)
      else if list_ex (\<lambda>arg. 131072 \<le> sum_list (map utf8_size arg)) argv
      then (Crashed (ascii ''[Errno 7] Argument list too long''), disk)
      else
        (case argv of
           [prog, opt] \<Rightarrow>
             if opt = ascii ''--version'' then (Completed 0 (ascii ''metaflac 1.4.3'') [], disk)
             else (Completed 1 [] (ascii ''ERROR: no files specified''), disk)
         | [prog, opt, file] \<Rightarrow>
             (case disk file of
                None \<Rightarrow> (Completed 1 [] (file @ ascii '': ERROR: reading metadata''), disk)
              | Some tags \<Rightarrow>
                  if opt = ascii ''--export-tags-to=-''
                  then (Completed 0 (universal_newlines (concat (map (\<lambda>t. t @ [newline]) tags))) [],
                        disk)
                  else if opt = ascii ''--remove-all-tags''
                  then (Completed 0 [] [], disk(file \<mapsto> []))
                  else if take 10 opt = ascii ''--set-tag='' \<and> has_eq (drop 10 opt)
                  then (Completed 0 [] [], disk(file \<mapsto> tags @ [drop 10 opt]))
                  else (Completed 1 [] (ascii ''ERROR: malformed option''), disk))
         | _ \<Rightarrow> (Completed 1 [] (ascii ''ERROR: malformed command line''), disk)))"

text \<open>A machine on which the tool is not installed.\<close>

definition no_metaflac :: "'w tool" where
  "no_metaflac argv w = (NoExecutable (ascii ''[Errno 2] No such file or directory''), w)"

text \<open>
  A tool that refuses the listed argument vectors with exit status 1, leaving the world as
  it is, and behaves as the given tool on all others.
\<close>

definition refusing :: "ustring list list \<Rightarrow> 'w tool \<Rightarrow> 'w tool" where
  "refusing refused tool argv w =
     (if argv \<in> set refused then (Completed 1 [] (ascii ''ERROR''), w) else tool argv w)"

text \<open>
  The scenario of the specification: a file with the tags \<^verbatim>\<open>TITLE=Song\<close>, \<^verbatim>\<open>ARTIST=Band\<close> and
  \<^verbatim>\<open>XCUSTOM=1\<close>, and the form as it is after loading that file.
\<close>

definition song_disk :: "ustring \<rightharpoonup> ustring list" where
  "song_disk =
     [ascii ''/music/song.flac'' \<mapsto> [ascii ''TITLE=Song'', ascii ''ARTIST=Band'', ascii ''XCUSTOM=1'']]"

definition song_form :: "(ustring \<rightharpoonup> ustring list) app" where
  "song_form =
     (setup_ui (Some (ascii ''/music/song.flac'')) song_disk)
       \<lparr>tag_entries := set_entry (ascii ''ARTIST'') (ascii ''Band'')
                         (set_entry (ascii ''TITLE'') (ascii ''Song'')
                            (map (\<lambda>tag. (tag, [])) common_tags)),
        custom_tags_text := ascii ''XCUSTOM=1''\<rparr>"

text \<open>
  A form that still shows the tags of another file, with the file of the scenario
  selected.
\<close>

definition stale_form :: "(ustring \<rightharpoonup> ustring list) app" where
  "stale_form =
     (setup_ui (Some (ascii ''/music/song.flac'')) song_disk)
       \<lparr>tag_entries := set_entry (ascii ''ALBUM'') (ascii ''Old'')
                         (set_entry (ascii ''TITLE'') (ascii ''Other'')
                            (map (\<lambda>tag. (tag, [])) common_tags)),
        custom_tags_text := ascii ''mood=calm''\<rparr>"

text \<open>The form with a single blank in the title field and nothing else.\<close>

definition blank_title :: "(ustring \<rightharpoonup> ustring list) app" where
  "blank_title =
     (setup_ui (Some (ascii ''/music/song.flac'')) song_disk)
       \<lparr>tag_entries := set_entry (ascii ''TITLE'') (ascii '' '')
                         (map (\<lambda>tag. (tag, [])) common_tags)\<rparr>"

text \<open>
  A file whose only tag ends in a blank; a file in which the title is given twice; a
  file whose title starts with a blank.
\<close>

definition padded_disk :: "ustring \<rightharpoonup> ustring list" where
  "padded_disk = [ascii ''/music/song.flac'' \<mapsto> [ascii ''mood=calm '']]"

definition twice_disk :: "ustring \<rightharpoonup> ustring list" where
  "twice_disk =
     [ascii ''/music/song.flac'' \<mapsto> [ascii ''TITLE=a'', ascii ''title=b'', ascii ''mood=calm'']]"

definition indented_disk :: "ustring \<rightharpoonup> ustring list" where
  "indented_disk = [ascii ''/music/song.flac'' \<mapsto> [ascii ''TITLE= Song'']]"


section \<open>Trimming and splitting\<close>

lemma ascii_Nil [simp]: "(ascii s = []) = (s = [])"
  by (simp add: ascii_def)

lemma ascii_eq [simp]: "(ascii s = ascii t) = (s = t)"
proof -
  have "inj (of_char :: char \<Rightarrow> nat)"
    by (rule injI) simp
  then show ?thesis
    by (simp add: ascii_def inj_map_eq_map)
qed


lemma eq_not_space: "\<not> isspace (equals_sign)"
  by (simp add: isspace_def whitespace_def equals_sign_def)

lemma newline_space: "isspace newline"
  by (simp add: isspace_def whitespace_def newline_def)

lemma rstrip_Nil: "rstrip [] = []"
  by (simp add: rstrip_def)

lemma rstrip_Cons:
  "rstrip (c # cs) = (if isspace c \<and> rstrip cs = [] then [] else c # rstrip cs)"
  by (auto simp: rstrip_def dropWhile_append)

lemma lstrip_rstrip: "lstrip (rstrip s) = rstrip (lstrip s)"
proof (induction s)
  case Nil
  show ?case by (simp add: lstrip_def rstrip_def)
next
  case (Cons c cs)
  show ?case
  proof (cases "isspace c")
    case True
    then have "rstrip (lstrip (c # cs)) = lstrip (rstrip cs)"
      using Cons by (simp add: lstrip_def)
    moreover have "lstrip (rstrip (c # cs)) = lstrip (rstrip cs)"
      using True by (simp add: rstrip_Cons) (simp add: lstrip_def)
    ultimately show ?thesis by simp
  next
    case False
    then show ?thesis by (simp add: rstrip_Cons lstrip_def)
  qed
qed

lemma strip_rev: "strip (rev s) = rev (strip s)"
proof -
  have "strip (rev s) = rev (lstrip (rstrip s))"
    by (simp add: strip_def rstrip_def lstrip_def)
  then show ?thesis by (simp add: lstrip_rstrip strip_def)
qed

lemma strip_Cons_space: "isspace c \<Longrightarrow> strip (c # s) = strip s"
  by (simp add: strip_def lstrip_def)

lemma has_eq_lstrip: "has_eq (lstrip s) = has_eq s"
  by (induction s) (auto simp: lstrip_def has_eq_def eq_not_space)

lemma has_eq_rev: "has_eq (rev s) = has_eq s"
  by (simp add: has_eq_def)

lemma has_eq_rstrip: "has_eq (rstrip s) = has_eq s"
proof -
  have "has_eq (rstrip s) = has_eq (lstrip (rev s))"
    by (simp add: rstrip_def lstrip_def has_eq_def)
  then show ?thesis by (simp add: has_eq_lstrip has_eq_rev)
qed

lemma has_eq_strip: "has_eq (strip s) = has_eq s"
  by (simp add: strip_def has_eq_rstrip has_eq_lstrip)

lemma has_eq_nonempty: "has_eq s \<Longrightarrow> s \<noteq> []"
  by (auto simp: has_eq_def)

lemma split_on_nonempty: "split_on sep s \<noteq> []"
  by (induction s) (auto split: list.splits)

lemma split_on_append:
  "split_on sep (a @ b) =
     butlast (split_on sep a) @ [last (split_on sep a) @ hd (split_on sep b)] @ tl (split_on sep b)"
proof (induction a)
  case Nil
  show ?case using split_on_nonempty [of sep b] by (cases "split_on sep b") simp_all
next
  case (Cons c a)
  show ?case
  proof (cases "c = sep")
    case True
    then show ?thesis using Cons split_on_nonempty [of sep a] by simp
  next
    case False
    obtain l ls where a: "split_on sep a = l # ls"
      using split_on_nonempty [of sep a] by (cases "split_on sep a") auto
    obtain m ms where ab: "split_on sep (a @ b) = m # ms"
      using split_on_nonempty [of sep "a @ b"] by (cases "split_on sep (a @ b)") auto
    show ?thesis
      using False Cons a ab by (cases ls) (auto split: if_splits)
  qed
qed

lemma split_on_rev: "split_on sep (rev s) = rev (map rev (split_on sep s))"
proof (induction s)
  case Nil
  show ?case by simp
next
  case (Cons c s)
  obtain l ls where s: "split_on sep s = l # ls"
    using split_on_nonempty [of sep s] by (cases "split_on sep s") auto
  show ?case
    using Cons s by (simp add: split_on_append)
qed

lemma wanted_Cons_space: "isspace c \<Longrightarrow> wanted (c # t) = wanted t"
proof -
  assume sp: "isspace c"
  obtain l ls where s: "split_on newline t = l # ls"
    using split_on_nonempty [of newline t] by (cases "split_on newline t") auto
  have "c \<noteq> equals_sign" using sp eq_not_space by auto
  then have "has_eq (c # l) = has_eq l" by (auto simp: has_eq_def)
  moreover have "\<not> has_eq []" by (simp add: has_eq_def)
  ultimately show ?thesis
    using sp s by (simp add: wanted_def strip_Cons_space)
qed

lemma wanted_lstrip: "wanted (lstrip t) = wanted t"
  by (induction t) (simp_all add: lstrip_def wanted_Cons_space)

lemma wanted_rev: "wanted (rev t) = rev (map rev (wanted t))"
  by (simp add: wanted_def split_on_rev filter_map rev_filter [symmetric] rev_map comp_def has_eq_rev strip_rev)

lemma wanted_rstrip: "wanted (rstrip t) = wanted t"
proof -
  have "wanted (rstrip t) = rev (map rev (wanted (lstrip (rev t))))"
    by (simp add: rstrip_def lstrip_def wanted_rev)
  also have "\<dots> = rev (map rev (wanted (rev t)))" by (simp add: wanted_lstrip)
  also have "\<dots> = wanted t" by (simp add: wanted_rev rev_map comp_def)
  finally show ?thesis .
qed

lemma wanted_strip: "wanted (strip t) = wanted t"
  by (simp add: strip_def wanted_rstrip wanted_lstrip)

lemma wanted_newline: "wanted (t @ [newline]) = wanted t"
proof -
  have "wanted (t @ [newline]) = rev (map rev (wanted (newline # rev t)))"
    using wanted_rev [of "newline # rev t"] by (simp add: rev_map comp_def)
  then show ?thesis
    by (simp add: wanted_Cons_space newline_space wanted_rev rev_map comp_def)
qed


section \<open>Properties of startup\<close>


lemma length_lower: "length (lower s) = length s"
  by (simp add: lower_def)







section \<open>Properties of the availability check\<close>

lemma run_invocations: "invocations (snd (run tool argv s)) = invocations s @ [argv]"
  by (simp add: run_def split: prod.splits)

lemma run_world: "world (snd (run tool argv s)) = snd (tool argv (world s))"
  by (simp add: run_def split: prod.splits)

lemma check_metaflac_unavailable:
  assumes "tool [ascii ''metaflac'', ascii ''--version''] (world s) = (r, w')"
    and "(\<exists>m. r = NoExecutable m) \<or> (\<exists>rc out err. r = Completed rc out err \<and> rc \<noteq> 0)"
  shows "check_metaflac tool s =
           (Inr False, s\<lparr>dialogs := dialogs s @ [ShowError (ascii ''Error'') install_hint],
                          invocations := invocations s @ [[ascii ''metaflac'', ascii ''--version'']],
                          world := w'\<rparr>)"
  using assms by (auto simp: check_metaflac_def run_def show_dialog_def)

lemma check_metaflac_available:
  assumes "tool [ascii ''metaflac'', ascii ''--version''] (world s) = (Completed 0 out err, w')"
  shows "check_metaflac tool s =
           (Inr True, s\<lparr>invocations := invocations s @ [[ascii ''metaflac'', ascii ''--version'']], world := w'\<rparr>)"
  using assms by (simp add: check_metaflac_def run_def)

text \<open>
  Claim C6. When the version probe finds no executable or exits with a non-zero status,
  \<^verbatim>\<open>check_metaflac\<close> returns false and shows the installation hint, and each of the
  mutating operations (\<^verbatim>\<open>save_tags\<close>, \<^verbatim>\<open>save_tags_and_exit\<close>, \<^verbatim>\<open>remove_all_tags\<close>) ends
  having launched nothing at all or the probe alone: no remove-all-tags and no set-tag
  process is launched, and the form is left as it was.
\<close>

theorem unavailable_tool_blocks_mutation:
  assumes "tool [ascii ''metaflac'', ascii ''--version''] (world s) = (r, w')"
    and "(\<exists>m. r = NoExecutable m) \<or> (\<exists>rc out err. r = Completed rc out err \<and> rc \<noteq> 0)"
    and "operation \<in> {save_tags tool now, save_tags_and_exit tool, remove_all_tags tool confirmed}"
  shows "fst (check_metaflac tool s) = Inr False \<and>
         dialogs (snd (check_metaflac tool s)) = dialogs s @ [ShowError (ascii ''Error'') install_hint] \<and>
         (invocations (snd (operation s)) = invocations s \<and> world (snd (operation s)) = world s \<or>
          invocations (snd (operation s)) = invocations s @ [[ascii ''metaflac'', ascii ''--version'']] \<and>
          world (snd (operation s)) = w') \<and>
         tag_entries (snd (operation s)) = tag_entries s \<and>
         custom_tags_text (snd (operation s)) = custom_tags_text s"
proof -
  note c = check_metaflac_unavailable [of tool s r w', OF assms(1,2)]
  from assms(3) consider "operation = save_tags tool now" | "operation = save_tags_and_exit tool"
    | "operation = remove_all_tags tool confirmed" by blast
  then show ?thesis
  proof cases
    case 1
    then show ?thesis using c by (simp add: save_tags_def show_dialog_def split: option.splits)
  next
    case 2
    then show ?thesis using c by (simp add: save_tags_and_exit_def show_dialog_def split: option.splits)
  next
    case 3
    then show ?thesis using c by (simp add: remove_all_tags_def show_dialog_def split: option.splits)
  qed
qed

theorem unavailable_tool_blocks_mutation_witness:
  "fst (check_metaflac no_metaflac song_form) = Inr False \<and>
   dialogs (snd (check_metaflac no_metaflac song_form)) =
     dialogs song_form @ [ShowError (ascii ''Error'') install_hint] \<and>
   (invocations (snd (save_tags no_metaflac (ascii ''2024-05-01 12:00:00'') song_form)) =
      invocations song_form \<and>
    world (snd (save_tags no_metaflac (ascii ''2024-05-01 12:00:00'') song_form)) = world song_form \<or>
    invocations (snd (save_tags no_metaflac (ascii ''2024-05-01 12:00:00'') song_form)) =
      invocations song_form @ [[ascii ''metaflac'', ascii ''--version'']] \<and>
    world (snd (save_tags no_metaflac (ascii ''2024-05-01 12:00:00'') song_form)) = world song_form) \<and>
   tag_entries (snd (save_tags no_metaflac (ascii ''2024-05-01 12:00:00'') song_form)) =
     tag_entries song_form \<and>
   custom_tags_text (snd (save_tags no_metaflac (ascii ''2024-05-01 12:00:00'') song_form)) =
     custom_tags_text song_form"
proof -
  have probe: "no_metaflac [ascii ''metaflac'', ascii ''--version''] (world song_form) =
      (NoExecutable (ascii ''[Errno 2] No such file or directory''), world song_form)"
    by (simp add: no_metaflac_def)
  have cause: "(\<exists>m. NoExecutable (ascii ''[Errno 2] No such file or directory'') = NoExecutable m) \<or>
      (\<exists>rc out err. NoExecutable (ascii ''[Errno 2] No such file or directory'') = Completed rc out err \<and> rc \<noteq> 0)"
    by simp
  have op: "save_tags no_metaflac (ascii ''2024-05-01 12:00:00'') \<in>
      {save_tags no_metaflac (ascii ''2024-05-01 12:00:00''), save_tags_and_exit no_metaflac,
       remove_all_tags no_metaflac True}"
    by simp
  show ?thesis
    by (rule unavailable_tool_blocks_mutation [of no_metaflac song_form _ "world song_form" _
        "(ascii ''2024-05-01 12:00:00'')" True, OF probe cause op])
qed


section \<open>Properties of removing all tags\<close>

text \<open>
  Claim C8. When a file is selected, the user confirms, the probe succeeds and the
  remove-all-tags invocation exits with status 0, every entry of the form is empty
  afterwards and so is the custom text; the only processes launched are the probe and
  the remove-all-tags invocation, so the file is not read again.
\<close>

theorem remove_all_resets_form:
  assumes "current_file s = Some file" and "file \<noteq> []"
    and "tool [ascii ''metaflac'', ascii ''--version''] (world s) = (Completed 0 vout verr, w1)"
    and "tool (remove_argv file) w1 = (Completed 0 out err, w2)"
  shows "tag_entries (snd (remove_all_tags tool True s)) =
           map (\<lambda>(tag, entry). (tag, [])) (tag_entries s) \<and>
         custom_tags_text (snd (remove_all_tags tool True s)) = [] \<and>
         invocations (snd (remove_all_tags tool True s)) =
           invocations s @ [[ascii ''metaflac'', ascii ''--version''], remove_argv file] \<and>
         world (snd (remove_all_tags tool True s)) = w2"
  using assms check_metaflac_available [of tool s vout verr w1, OF assms(3)]
  by (auto simp: remove_all_tags_def run_def clear_form_def show_dialog_def)

theorem remove_all_resets_form_witness:
  "tag_entries (snd (remove_all_tags ideal_metaflac True song_form)) =
     map (\<lambda>(tag, entry). (tag, [])) (tag_entries song_form) \<and>
   custom_tags_text (snd (remove_all_tags ideal_metaflac True song_form)) = [] \<and>
   invocations (snd (remove_all_tags ideal_metaflac True song_form)) =
     invocations song_form @ [[ascii ''metaflac'', ascii ''--version''], remove_argv (ascii ''/music/song.flac'')] \<and>
   world (snd (remove_all_tags ideal_metaflac True song_form)) = [ascii ''/music/song.flac'' \<mapsto> []]"
proof -
  have sel: "current_file song_form = Some (ascii ''/music/song.flac'')" "(ascii ''/music/song.flac'') \<noteq> []"
    by (simp_all add: song_form_def setup_ui_def)
  have probe: "ideal_metaflac [ascii ''metaflac'', ascii ''--version''] (world song_form) =
      (Completed 0 (ascii ''metaflac 1.4.3'') [], song_disk)"
    by (simp add: ideal_metaflac_def song_form_def setup_ui_def ascii_def utf8_size_def)
  have remove: "ideal_metaflac (remove_argv (ascii ''/music/song.flac'')) song_disk =
      (Completed 0 [] [], [ascii ''/music/song.flac'' \<mapsto> []])"
    by (simp add: ideal_metaflac_def remove_argv_def song_disk_def ascii_def utf8_size_def)
  show ?thesis
    by (rule remove_all_resets_form [of song_form "(ascii ''/music/song.flac'')" ideal_metaflac,
          OF sel probe remove])
qed

section \<open>Properties of saving\<close>

lemma run_keeps:
  assumes "run tool argv s = (r, s')"
  shows "current_file s' = current_file s" "tag_entries s' = tag_entries s"
    "custom_tags_text s' = custom_tags_text s" "dialogs s' = dialogs s"
    "status_var s' = status_var s" "success_var s' = success_var s"
    "quit_called s' = quit_called s" "invocations s' = invocations s @ [argv]"
  using assms by (auto simp: run_def split: prod.splits)

lemma run_all_append:
  "run_all tool (a @ b) s =
     (case run_all tool a s of (Inl e, s') \<Rightarrow> (Inl e, s') | (Inr u, s') \<Rightarrow> run_all tool b s')"
  by (induction a arbitrary: s) (auto split: prod.splits sum.splits)

lemma run_all_keeps:
  assumes "run_all tool plan s = (r, s')"
  shows "current_file s' = current_file s \<and> tag_entries s' = tag_entries s \<and>
    custom_tags_text s' = custom_tags_text s \<and> dialogs s' = dialogs s \<and>
    status_var s' = status_var s \<and> success_var s' = success_var s \<and>
    quit_called s' = quit_called s"
  using assms
proof (induction plan arbitrary: s)
  case Nil
  then show ?case by simp
next
  case (Cons argv plan)
  obtain r1 s1 where r: "run tool argv s = (r1, s1)" by (cases "run tool argv s")
  show ?case
  proof (cases r1)
    case (Inl e)
    then show ?thesis using Cons.prems r run_keeps [OF r] by simp
  next
    case (Inr out)
    then have "run_all tool plan s1 = (r, s')" using Cons.prems r by simp
    from Cons.IH [OF this] show ?thesis using run_keeps [OF r] by simp
  qed
qed

lemma run_all_invocations:
  assumes "run_all tool plan s = (r, s')"
  shows "\<exists>n\<le>length plan. invocations s' = invocations s @ take n plan \<and>
           (plan \<noteq> [] \<longrightarrow> 1 \<le> n) \<and> (r = Inr () \<longrightarrow> n = length plan)"
  using assms
proof (induction plan arbitrary: s)
  case Nil
  then show ?case by simp
next
  case (Cons argv plan)
  obtain r1 s1 where r: "run tool argv s = (r1, s1)" by (cases "run tool argv s")
  show ?case
  proof (cases r1)
    case (Inl e)
    then have "s' = s1" "r = Inl e" using Cons.prems r by simp_all
    then have "invocations s' = invocations s @ take 1 (argv # plan)"
      using run_keeps(8) [OF r] by simp
    then show ?thesis using \<open>r = Inl e\<close>
      by (intro exI [of _ 1]) simp
  next
    case (Inr out)
    then have "run_all tool plan s1 = (r, s')" using Cons.prems r by simp
    from Cons.IH [OF this] obtain n where n: "n \<le> length plan"
      "invocations s' = invocations s1 @ take n plan" "r = Inr () \<longrightarrow> n = length plan"
      by blast
    then show ?thesis using run_keeps(8) [OF r]
      by (intro exI [of _ "Suc n"]) simp
  qed
qed

lemma set_common_tags_run_all:
  "set_common_tags tool file entries s =
     run_all tool (map (\<lambda>(tag, entry). set_tag_argv file (tag @ ascii ''='' @ strip entry))
       (filter (\<lambda>(tag, entry). strip entry \<noteq> []) entries)) s"
  by (induction entries arbitrary: s) (auto simp: Let_def split: prod.splits sum.splits)

lemma strip_nonempty: "has_eq line \<Longrightarrow> strip line \<noteq> []"
  using has_eq_strip [of line] has_eq_nonempty [of "strip line"] by simp

lemma set_custom_tags_run_all:
  "set_custom_tags tool file ls s =
     run_all tool (map (\<lambda>line. set_tag_argv file (strip line)) (filter has_eq ls)) s"
  by (induction ls arbitrary: s)
    (auto simp: Let_def has_eq_strip strip_nonempty split: prod.splits sum.splits)

lemma by_field_order:
  assumes "map fst entries = tags" and "distinct tags"
  shows "map (\<lambda>(tag, entry). f tag entry) (filter (\<lambda>(tag, entry). P entry) entries) =
         map (\<lambda>tag. f tag (entry_of entries tag)) (filter (\<lambda>tag. P (entry_of entries tag)) tags)"
  using assms
proof (induction entries arbitrary: tags)
  case Nil
  then show ?case by simp
next
  case (Cons p entries)
  obtain t e where p: "p = (t, e)" by (cases p)
  obtain tags' where tags: "tags = t # tags'" "map fst entries = tags'" "t \<notin> set tags'" "distinct tags'"
    using Cons.prems p by auto
  have same: "entry_of (p # entries) x = entry_of entries x" if "x \<in> set tags'" for x
    using that tags(3) p by (auto simp: entry_of_def)
  have "map (\<lambda>tag. f tag (entry_of (p # entries) tag)) (filter (\<lambda>tag. P (entry_of (p # entries) tag)) tags') =
        map (\<lambda>tag. f tag (entry_of entries tag)) (filter (\<lambda>tag. P (entry_of entries tag)) tags')"
    using same by (intro map_cong filter_cong) auto
  moreover have "entry_of (p # entries) t = e" using p by (simp add: entry_of_def)
  ultimately show ?case
    using Cons.IH [OF tags(2) tags(4)] p tags(1) by simp
qed

lemma distinct_common_tags: "distinct common_tags"
  by (simp add: common_tags_def)

lemma custom_text_lines:
  "map (\<lambda>line. set_tag_argv file (strip line)) (filter has_eq (split_on newline (strip (t @ [newline])))) =
   map (\<lambda>line. set_tag_argv file (strip line)) (filter has_eq (split_on newline t))"
proof -
  have "wanted (strip (t @ [newline])) = wanted t"
    by (simp add: wanted_strip wanted_newline)
  then have "map (set_tag_argv file) (wanted (strip (t @ [newline]))) = map (set_tag_argv file) (wanted t)"
    by simp
  then show ?thesis by (simp add: wanted_def comp_def)
qed

lemma write_tags_run_all:
  assumes "map fst (tag_entries s) = common_tags"
  shows "write_tags tool file s = run_all tool (save_plan file (tag_entries s) (custom_tags_text s)) s"
proof -
  obtain r1 s1 where r: "run tool (remove_argv file) s = (r1, s1)"
    by (cases "run tool (remove_argv file) s")
  show ?thesis
  proof (cases r1)
    case (Inl e)
    then show ?thesis using r by (simp add: write_tags_def save_plan_def)
  next
    case (Inr out)
    let ?common = "map (\<lambda>tag. set_tag_argv file (tag @ ascii ''='' @ strip (entry_of (tag_entries s) tag)))
       (filter (\<lambda>tag. strip (entry_of (tag_entries s) tag) \<noteq> []) common_tags)"
    let ?custom = "map (\<lambda>line. set_tag_argv file (strip line))
       (filter has_eq (split_on newline (custom_tags_text s)))"
    have e1: "tag_entries s1 = tag_entries s" using run_keeps(2) [OF r] .
    have c: "set_common_tags tool file (tag_entries s1) s1 = run_all tool ?common s1"
      unfolding set_common_tags_run_all e1
      using by_field_order [OF assms distinct_common_tags,
          of "\<lambda>tag entry. set_tag_argv file (tag @ ascii ''='' @ strip entry)" "\<lambda>entry. strip entry \<noteq> []"]
      by simp
    obtain r2 s2 where r2: "run_all tool ?common s1 = (r2, s2)"
      by (cases "run_all tool ?common s1")
    have t2: "custom_tags_text s2 = custom_tags_text s"
      using run_all_keeps [OF r2] run_keeps(3) [OF r] by simp
    have nil: "?custom = []" if "strip (custom_tags_text s @ [newline]) = []"
      using custom_text_lines [of "file" "custom_tags_text s"] that by (simp add: has_eq_def)
    show ?thesis
    proof (cases r2)
      case (Inl e)
      then show ?thesis
        using r Inr c r2 by (simp add: write_tags_def save_plan_def run_all_append)
    next
      case Inr2: (Inr u)
      then show ?thesis
        using r Inr c r2 t2 nil custom_text_lines [of "file" "custom_tags_text s"]
        by (simp add: write_tags_def save_plan_def run_all_append set_custom_tags_run_all Let_def)
    qed
  qed
qed

lemma save_tags_run_all:
  assumes "current_file s = Some file" and "file \<noteq> []"
    and "map fst (tag_entries s) = common_tags"
    and "tool [ascii ''metaflac'', ascii ''--version''] (world s) = (Completed 0 vout verr, w0)"
  shows "save_tags tool now s =
     (case run_all tool (save_plan file (tag_entries s) (custom_tags_text s))
             (s\<lparr>invocations := invocations s @ [[ascii ''metaflac'', ascii ''--version'']], world := w0\<rparr>) of
        (Inr u, s2) \<Rightarrow>
          (Inr (), s2\<lparr>status_var := ascii ''Tags saved to '' @ basename file,
                       success_var := now @ ascii '' - Tags saved successfully!''\<rparr>)
      | (Inl e, s2) \<Rightarrow> (Inr (), show_dialog (save_failed e) s2))"
proof -
  let ?s0 = "s\<lparr>invocations := invocations s @ [[ascii ''metaflac'', ascii ''--version'']], world := w0\<rparr>"
  have "write_tags tool file ?s0 =
      run_all tool (save_plan file (tag_entries ?s0) (custom_tags_text ?s0)) ?s0"
    by (rule write_tags_run_all) (simp add: assms(3))
  then show ?thesis
    using assms(1,2) check_metaflac_available [of tool s vout verr w0, OF assms(4)]
    by (simp add: save_tags_def)
qed

lemma run_all_succeeds:
  "succeeds tool plan (world s) \<Longrightarrow>
   run_all tool plan s =
     (Inr (), s\<lparr>invocations := invocations s @ plan, world := world_after tool plan (world s)\<rparr>)"
proof (induction plan arbitrary: s)
  case Nil
  show ?case by simp
next
  case (Cons argv plan)
  obtain r w' where t: "tool argv (world s) = (r, w')" by (cases "tool argv (world s)")
  from Cons.prems t obtain out err where r: "r = Completed 0 out err" and rest: "succeeds tool plan w'"
    by (cases r) auto
  let ?s1 = "s\<lparr>invocations := invocations s @ [argv], world := w'\<rparr>"
  have "run tool argv s = (Inr out, ?s1)" using t r by (simp add: run_def)
  moreover have "run_all tool plan ?s1 =
      (Inr (), ?s1\<lparr>invocations := invocations ?s1 @ plan, world := world_after tool plan (world ?s1)\<rparr>)"
    using rest by (intro Cons.IH) simp
  ultimately show ?case using t by simp
qed

lemma run_fails:
  "\<not> succeeds tool [argv] (world s) \<Longrightarrow>
   \<exists>e. run tool argv s =
     (Inl e, s\<lparr>invocations := invocations s @ [argv], world := snd (tool argv (world s))\<rparr>)"
  by (cases "tool argv (world s)") (auto simp: run_def split: proc.splits)

lemma run_all_first_failure:
  assumes "succeeds tool applied (world s)"
    and "\<not> succeeds tool [failing] (world_after tool applied (world s))"
  shows "\<exists>e. run_all tool (applied @ failing # rest) s =
     (Inl e, s\<lparr>invocations := invocations s @ applied @ [failing],
                world := snd (tool failing (world_after tool applied (world s)))\<rparr>)"
proof -
  let ?s1 = "s\<lparr>invocations := invocations s @ applied, world := world_after tool applied (world s)\<rparr>"
  have "\<not> succeeds tool [failing] (world ?s1)" using assms(2) by simp
  from run_fails [OF this] obtain e where "run tool failing ?s1 =
      (Inl e, ?s1\<lparr>invocations := invocations ?s1 @ [failing],
                   world := snd (tool failing (world ?s1))\<rparr>)"
    by blast
  then have "run_all tool (applied @ failing # rest) s =
      (Inl e, s\<lparr>invocations := invocations s @ applied @ [failing],
                world := snd (tool failing (world_after tool applied (world s)))\<rparr>)"
    using run_all_succeeds [OF assms(1)] by (simp add: run_all_append)
  then show ?thesis by blast
qed

text \<open>
  Claim C1, as the code has it. With a file selected and the probe passed, what
  \<^verbatim>\<open>save_tags\<close> launches after the probe is the plan, one process per entry and in its
  order, up to and including the first entry that does not complete with status 0: the
  remove-all-tags invocation, then one set-tag per well-known field whose value is not
  empty after trimming, in the fixed field order, then one set-tag per line of the custom
  text that contains \<^verbatim>\<open>=\<close>. When every entry succeeds the whole plan is launched, no
  dialog is shown and the success message is set. When the entries \<open>applied\<close> succeed and
  the next one, \<open>failing\<close>, does not, exactly \<open>applied\<close> and \<open>failing\<close> are launched and one
  error dialog is shown. A field that is empty or blank gives no entry of the plan, and
  neither does a custom line without \<^verbatim>\<open>=\<close>.
\<close>

theorem save_tags_follows_plan:
  assumes "current_file s = Some file" and "file \<noteq> []"
    and "map fst (tag_entries s) = common_tags"
    and "tool [ascii ''metaflac'', ascii ''--version''] (world s) = (Completed 0 vout verr, w0)"
  shows "(succeeds tool (save_plan file (tag_entries s) (custom_tags_text s)) w0 \<longrightarrow>
            invocations (snd (save_tags tool now s)) =
              invocations s @ [ascii ''metaflac'', ascii ''--version''] #
                save_plan file (tag_entries s) (custom_tags_text s) \<and>
            dialogs (snd (save_tags tool now s)) = dialogs s \<and>
            success_var (snd (save_tags tool now s)) = now @ ascii '' - Tags saved successfully!'' \<and>
            world (snd (save_tags tool now s)) =
              world_after tool (save_plan file (tag_entries s) (custom_tags_text s)) w0) \<and>
         (save_plan file (tag_entries s) (custom_tags_text s) = applied @ failing # rest \<and>
          succeeds tool applied w0 \<and> \<not> succeeds tool [failing] (world_after tool applied w0) \<longrightarrow>
            invocations (snd (save_tags tool now s)) =
              invocations s @ [ascii ''metaflac'', ascii ''--version''] # applied @ [failing] \<and>
            (\<exists>e. dialogs (snd (save_tags tool now s)) = dialogs s @ [save_failed e]) \<and>
            success_var (snd (save_tags tool now s)) = success_var s \<and>
            world (snd (save_tags tool now s)) = snd (tool failing (world_after tool applied w0)))"
proof -
  let ?plan = "save_plan file (tag_entries s) (custom_tags_text s)"
  let ?s0 = "s\<lparr>invocations := invocations s @ [[ascii ''metaflac'', ascii ''--version'']], world := w0\<rparr>"
  note eq = save_tags_run_all [where tool = tool and s = s and now = now, OF assms]
  have w: "world ?s0 = w0" by simp
  have good: "invocations (snd (save_tags tool now s)) =
        invocations s @ [ascii ''metaflac'', ascii ''--version''] # ?plan \<and>
      dialogs (snd (save_tags tool now s)) = dialogs s \<and>
      success_var (snd (save_tags tool now s)) = now @ ascii '' - Tags saved successfully!'' \<and>
      world (snd (save_tags tool now s)) = world_after tool ?plan w0"
    if "succeeds tool ?plan w0"
    using run_all_succeeds [of tool ?plan ?s0] that eq by simp
  have bad: "invocations (snd (save_tags tool now s)) =
        invocations s @ [ascii ''metaflac'', ascii ''--version''] # applied @ [failing] \<and>
      (\<exists>e. dialogs (snd (save_tags tool now s)) = dialogs s @ [save_failed e]) \<and>
      success_var (snd (save_tags tool now s)) = success_var s \<and>
      world (snd (save_tags tool now s)) = snd (tool failing (world_after tool applied w0))"
    if p: "?plan = applied @ failing # rest" and a: "succeeds tool applied w0"
      and f: "\<not> succeeds tool [failing] (world_after tool applied w0)"
  proof -
    from run_all_first_failure [of tool applied ?s0 failing rest] a f
    obtain e where "run_all tool (applied @ failing # rest) ?s0 =
      (Inl e, ?s0\<lparr>invocations := invocations ?s0 @ applied @ [failing],
                  world := snd (tool failing (world_after tool applied w0))\<rparr>)"
      by auto
    then show ?thesis using eq p by (auto simp: show_dialog_def)
  qed
  show ?thesis using good bad by blast
qed

theorem save_tags_follows_plan_witness:
  "invocations (snd (save_tags ideal_metaflac (ascii ''2024-05-01 12:00:00'') song_form)) =
     invocations song_form @ [ascii ''metaflac'', ascii ''--version''] #
       [[ascii ''metaflac'', ascii ''--remove-all-tags'', ascii ''/music/song.flac''],
        [ascii ''metaflac'', ascii ''--set-tag=TITLE=Song'', ascii ''/music/song.flac''],
        [ascii ''metaflac'', ascii ''--set-tag=ARTIST=Band'', ascii ''/music/song.flac''],
        [ascii ''metaflac'', ascii ''--set-tag=XCUSTOM=1'', ascii ''/music/song.flac'']] \<and>
   dialogs (snd (save_tags ideal_metaflac (ascii ''2024-05-01 12:00:00'') song_form)) =
     dialogs song_form \<and>
   invocations (snd (save_tags
       (refusing [set_tag_argv (ascii ''/music/song.flac'') (ascii ''ARTIST=Band'')] ideal_metaflac)
       (ascii ''2024-05-01 12:00:00'') song_form)) =
     invocations song_form @ [ascii ''metaflac'', ascii ''--version''] #
       [[ascii ''metaflac'', ascii ''--remove-all-tags'', ascii ''/music/song.flac''],
        [ascii ''metaflac'', ascii ''--set-tag=TITLE=Song'', ascii ''/music/song.flac'']] @
       [[ascii ''metaflac'', ascii ''--set-tag=ARTIST=Band'', ascii ''/music/song.flac'']] \<and>
   (\<exists>e. dialogs (snd (save_tags
       (refusing [set_tag_argv (ascii ''/music/song.flac'') (ascii ''ARTIST=Band'')] ideal_metaflac)
       (ascii ''2024-05-01 12:00:00'') song_form)) = dialogs song_form @ [save_failed e])"
proof -
  let ?f = "ascii ''/music/song.flac''"
  let ?now = "ascii ''2024-05-01 12:00:00''"
  let ?applied = "[[ascii ''metaflac'', ascii ''--remove-all-tags'', ascii ''/music/song.flac''],
        [ascii ''metaflac'', ascii ''--set-tag=TITLE=Song'', ascii ''/music/song.flac'']]"
  let ?failing = "[ascii ''metaflac'', ascii ''--set-tag=ARTIST=Band'', ascii ''/music/song.flac'']"
  let ?rest = "[[ascii ''metaflac'', ascii ''--set-tag=XCUSTOM=1'', ascii ''/music/song.flac'']]"
  let ?refusing = "refusing [set_tag_argv ?f (ascii ''ARTIST=Band'')] ideal_metaflac"
  have sel: "current_file song_form = Some ?f" "?f \<noteq> []"
    by (simp_all add: song_form_def setup_ui_def)
  have keys: "map fst (tag_entries song_form) = common_tags"
    by code_simp
  have probe: "ideal_metaflac [ascii ''metaflac'', ascii ''--version''] (world song_form) =
      (Completed 0 (ascii ''metaflac 1.4.3'') [], world song_form)"
    "?refusing [ascii ''metaflac'', ascii ''--version''] (world song_form) =
      (Completed 0 (ascii ''metaflac 1.4.3'') [], world song_form)"
    by (simp_all add: refusing_def set_tag_argv_def ideal_metaflac_def ascii_def utf8_size_def)
  have plan: "save_plan ?f (tag_entries song_form) (custom_tags_text song_form) =
      ?applied @ ?failing # ?rest"
    by code_simp
  have all: "succeeds ideal_metaflac (?applied @ ?failing # ?rest) (world song_form)"
    by code_simp
  have some: "succeeds ?refusing ?applied (world song_form)"
    by code_simp
  have stop: "\<not> succeeds ?refusing [?failing] (world_after ?refusing ?applied (world song_form))"
    by code_simp
  note whole = save_tags_follows_plan [where tool = ideal_metaflac and s = song_form and now = ?now,
      OF sel keys probe(1), THEN conjunct1, unfolded plan, THEN mp, OF all]
  note part = save_tags_follows_plan [where tool = ?refusing and s = song_form and now = ?now
      and applied = ?applied and failing = ?failing and rest = ?rest,
      OF sel keys probe(2), THEN conjunct2, THEN mp, OF conjI [OF plan conjI [OF some stop]]]
  show ?thesis
    apply (intro conjI)
       apply (rule whole [THEN conjunct1, simplified])
      apply (rule whole [THEN conjunct2, THEN conjunct1])
     apply (rule part [THEN conjunct1])
    apply (rule part [THEN conjunct2, THEN conjunct1])
    done
qed

text \<open>
  Claim C1 as the specification states it fails for a well-known field that is not empty
  but blank: the title holds one space, the save goes through without a dialog, and no
  set-tag process is launched for the title.
\<close>

theorem blank_field_is_not_written:
  "entry_of (tag_entries blank_title) (ascii ''TITLE'') \<noteq> [] \<and>
   invocations (snd (save_tags ideal_metaflac (ascii ''2024-05-01 12:00:00'') blank_title)) =
     [[ascii ''metaflac'', ascii ''--version''], [ascii ''metaflac'', ascii ''--remove-all-tags'', ascii ''/music/song.flac'']] \<and>
   dialogs (snd (save_tags ideal_metaflac (ascii ''2024-05-01 12:00:00'') blank_title)) = []"
  by code_simp

text \<open>
  Claim C4. Let the plan of a save be split into the invocations \<open>applied\<close>, which all
  succeed and of which the first is the remove-all-tags invocation, the invocation
  \<open>failing\<close>, which exits with a non-zero status, and the remaining ones. Then
  \<^verbatim>\<open>save_tags\<close> launches the probe, \<open>applied\<close> and \<open>failing\<close> and nothing after that: none of
  the remaining set-tag invocations and nothing that would undo the ones applied. The
  outside world is left as the failing invocation left it, on top of what the applied
  ones did, the form is unchanged, and one error dialog reports the failure.
\<close>

theorem save_stops_at_first_failure:
  assumes "current_file s = Some file" and "file \<noteq> []"
    and "map fst (tag_entries s) = common_tags"
    and "tool [ascii ''metaflac'', ascii ''--version''] (world s) = (Completed 0 vout verr, w0)"
    and "save_plan file (tag_entries s) (custom_tags_text s) = applied @ failing # rest"
    and "applied \<noteq> []"
    and "run_all tool applied
           (s\<lparr>invocations := invocations s @ [[ascii ''metaflac'', ascii ''--version'']], world := w0\<rparr>) =
         (Inr (), s1)"
    and "tool failing (world s1) = (Completed rc out err, w2)" and "rc \<noteq> 0"
  shows "save_tags tool now s =
           (Inr (),
            s1\<lparr>dialogs := dialogs s @
                   [ShowErrorExn (ascii ''Error'') (ascii ''Failed to save tags: '') (CalledProcessError failing rc err)],
                invocations := invocations s @ [ascii ''metaflac'', ascii ''--version''] # applied @ [failing],
                world := w2\<rparr>) \<and>
         hd applied = remove_argv file \<and>
         tag_entries s1 = tag_entries s \<and> custom_tags_text s1 = custom_tags_text s"
proof -
  let ?s0 = "s\<lparr>invocations := invocations s @ [[ascii ''metaflac'', ascii ''--version'']], world := w0\<rparr>"
  have keeps: "dialogs s1 = dialogs s" "tag_entries s1 = tag_entries s"
    "custom_tags_text s1 = custom_tags_text s"
    using run_all_keeps [OF assms(7)] by simp_all
  from run_all_invocations [OF assms(7)]
  have inv: "invocations s1 = invocations s @ [ascii ''metaflac'', ascii ''--version''] # applied" by auto
  have fail: "run tool failing s1 =
      (Inl (CalledProcessError failing rc err),
       s1\<lparr>invocations := invocations s1 @ [failing], world := w2\<rparr>)"
    using assms(8,9) by (simp add: run_def)
  have "run_all tool (applied @ failing # rest) ?s0 =
      (Inl (CalledProcessError failing rc err),
       s1\<lparr>invocations := invocations s1 @ [failing], world := w2\<rparr>)"
    using assms(7) fail by (simp add: run_all_append)
  then have "save_tags tool now s =
      (Inr (), show_dialog (save_failed (CalledProcessError failing rc err))
         (s1\<lparr>invocations := invocations s1 @ [failing], world := w2\<rparr>))"
    using save_tags_run_all [where tool = tool and s = s and now = now, OF assms(1-4)] assms(5) by simp
  moreover have "hd applied = remove_argv file"
    using assms(5,6) by (cases applied) (simp_all add: save_plan_def)
  ultimately show ?thesis
    using keeps inv by (simp add: show_dialog_def save_failed_def)
qed

theorem save_stops_at_first_failure_witness:
  "(let tool = refusing [set_tag_argv (ascii ''/music/song.flac'') (ascii ''ARTIST=Band'')] ideal_metaflac;
        s1 = snd (run_all tool
               [remove_argv (ascii ''/music/song.flac''), set_tag_argv (ascii ''/music/song.flac'') (ascii ''TITLE=Song'')]
               (song_form\<lparr>invocations := invocations song_form @ [[ascii ''metaflac'', ascii ''--version'']],
                          world := world song_form\<rparr>))
    in save_tags tool (ascii ''2024-05-01 12:00:00'') song_form =
         (Inr (),
          s1\<lparr>dialogs := dialogs song_form @
                 [ShowErrorExn (ascii ''Error'') (ascii ''Failed to save tags: '')
                    (CalledProcessError (set_tag_argv (ascii ''/music/song.flac'') (ascii ''ARTIST=Band'')) 1 (ascii ''ERROR''))],
              invocations := invocations song_form @ [ascii ''metaflac'', ascii ''--version''] #
                 [remove_argv (ascii ''/music/song.flac''), set_tag_argv (ascii ''/music/song.flac'') (ascii ''TITLE=Song'')] @
                 [set_tag_argv (ascii ''/music/song.flac'') (ascii ''ARTIST=Band'')],
              world := world s1\<rparr>) \<and>
       world (snd (save_tags tool (ascii ''2024-05-01 12:00:00'') song_form)) (ascii ''/music/song.flac'') =
         Some [ascii ''TITLE=Song''])"
proof -
  let ?tool = "refusing [set_tag_argv (ascii ''/music/song.flac'') (ascii ''ARTIST=Band'')] ideal_metaflac"
  let ?applied = "[remove_argv (ascii ''/music/song.flac''), set_tag_argv (ascii ''/music/song.flac'') (ascii ''TITLE=Song'')]"
  let ?s0 = "song_form\<lparr>invocations := invocations song_form @ [[ascii ''metaflac'', ascii ''--version'']],
                        world := world song_form\<rparr>"
  let ?s1 = "snd (run_all ?tool ?applied ?s0)"
  have sel: "current_file song_form = Some (ascii ''/music/song.flac'')" "(ascii ''/music/song.flac'') \<noteq> []"
    by (simp_all add: song_form_def setup_ui_def)
  have keys: "map fst (tag_entries song_form) = common_tags"
    by code_simp
  have probe: "?tool [ascii ''metaflac'', ascii ''--version''] (world song_form) =
      (Completed 0 (ascii ''metaflac 1.4.3'') [], world song_form)"
    by (simp add: refusing_def ideal_metaflac_def set_tag_argv_def ascii_def utf8_size_def)
  have plan: "save_plan (ascii ''/music/song.flac'') (tag_entries song_form) (custom_tags_text song_form) =
      ?applied @ set_tag_argv (ascii ''/music/song.flac'') (ascii ''ARTIST=Band'') #
        [set_tag_argv (ascii ''/music/song.flac'') (ascii ''XCUSTOM=1'')]"
    by code_simp
  have some: "?applied \<noteq> []" by simp
  have "fst (run_all ?tool ?applied ?s0) = Inr ()"
    by code_simp
  then have applied: "run_all ?tool ?applied ?s0 = (Inr (), ?s1)"
    by (simp add: prod_eq_iff)
  have failing: "?tool (set_tag_argv (ascii ''/music/song.flac'') (ascii ''ARTIST=Band'')) (world ?s1) =
      (Completed 1 [] (ascii ''ERROR''), world ?s1)"
    by (simp add: refusing_def)
  have rc: "(1::int) \<noteq> 0" by simp
  have left: "world (snd (save_tags ?tool (ascii ''2024-05-01 12:00:00'') song_form)) (ascii ''/music/song.flac'') =
      Some [ascii ''TITLE=Song'']"
    by code_simp
  show ?thesis
    using save_stops_at_first_failure [where tool = ?tool and s = song_form
        and now = "(ascii ''2024-05-01 12:00:00'')", OF sel keys probe plan some applied failing rc] left
    by (simp add: Let_def)
qed

section \<open>Splitting and joining lines\<close>

lemma join_nonempty: "ls \<noteq> [] \<Longrightarrow> hd ls \<noteq> [] \<Longrightarrow> join sep ls \<noteq> []"
  by (induction sep ls rule: join.induct) simp_all

lemma split_on_no_sep: "sep \<notin> set l \<Longrightarrow> split_on sep l = [l]"
  by (induction l) auto

lemma split_on_line: "sep \<notin> set l \<Longrightarrow> split_on sep (l @ sep # rest) = l # split_on sep rest"
  by (induction l) auto

lemma split_on_join:
  "ls \<noteq> [] \<Longrightarrow> \<forall>l \<in> set ls. sep \<notin> set l \<Longrightarrow> split_on sep (join [sep] ls) = ls"
  by (induction "[sep]" ls rule: join.induct) (simp_all add: split_on_no_sep split_on_line)

lemma split_on_no_sep_inside: "l \<in> set (split_on sep s) \<Longrightarrow> sep \<notin> set l"
proof (induction s arbitrary: l)
  case Nil
  then show ?case by simp
next
  case (Cons c s)
  obtain m ms where s: "split_on sep s = m # ms"
    using split_on_nonempty [of sep s] by (cases "split_on sep s") auto
  show ?case
    using Cons s by (auto split: if_splits)
qed

section \<open>Properties of loading\<close>

lemma set_entry_keys: "map fst (set_entry key v entries) = map fst entries"
  by (induction entries) (auto simp: set_entry_def)

lemma set_entry_key_set: "fst ` set (set_entry key v entries) = fst ` set entries"
  using set_entry_keys [of key v entries] by (metis set_map)

lemma parse_lines_custom:
  "snd (parse_lines upper ls entries custom) =
     custom @ filter (\<lambda>line. has_eq line \<and> upper (key_of line) \<notin> fst ` set entries) ls"
  by (induction ls arbitrary: entries custom) (simp_all add: Let_def set_entry_key_set)

lemma parse_lines_entries:
  "fst (parse_lines upper ls entries custom) =
     map (\<lambda>(tag, entry). (tag, case last_value upper tag ls of None \<Rightarrow> entry | Some v \<Rightarrow> v)) entries"
proof (induction ls arbitrary: entries custom)
  case Nil
  show ?case by simp
next
  case (Cons line ls)
  show ?case
  proof (cases "has_eq line \<and> upper (key_of line) \<in> fst ` set entries")
    case True
    then show ?thesis
      by (simp add: Let_def Cons.IH set_entry_def comp_def split: option.splits prod.splits)
  next
    case False
    then have "(case last_value upper tag (line # ls) of None \<Rightarrow> entry | Some v \<Rightarrow> v) =
        (case last_value upper tag ls of None \<Rightarrow> entry | Some v \<Rightarrow> v)"
      if "(tag, entry) \<in> set entries" for tag entry
      using that by (force split: option.splits)
    then have "map (\<lambda>(tag, entry). (tag, case last_value upper tag (line # ls) of None \<Rightarrow> entry | Some v \<Rightarrow> v)) entries =
        map (\<lambda>(tag, entry). (tag, case last_value upper tag ls of None \<Rightarrow> entry | Some v \<Rightarrow> v)) entries"
      by (intro map_cong) auto
    then show ?thesis
      using False Cons.IH by (auto simp: Let_def)
  qed
qed

lemma last_value_None:
  "(last_value upper tag ls = None) = (\<forall>line \<in> set ls. \<not> (has_eq line \<and> upper (key_of line) = tag))"
  by (induction ls) (auto split: option.splits)

lemma map_cleared:
  "map (\<lambda>(tag, entry). (tag, case last_value upper tag ls of None \<Rightarrow> entry | Some v \<Rightarrow> v))
     (map (\<lambda>(tag, entry). (tag, [])) entries) =
   map (\<lambda>(tag, entry). (tag, case last_value upper tag ls of None \<Rightarrow> [] | Some v \<Rightarrow> v)) entries"
  by (induction entries) (auto split: option.splits)

lemma cleared_keys: "fst ` set (map (\<lambda>(tag, entry). (tag, [])) entries) = fst ` set entries"
  by force

lemma join_nil: "join sep [] = []"
  by simp

lemma load_tags_result:
  assumes "current_file s = Some file" and "file \<noteq> []"
    and "tool [ascii ''metaflac'', ascii ''--version''] (world s) = (Completed 0 vout verr, w0)"
    and "tool [ascii ''metaflac'', ascii ''--export-tags-to=-'', file] w0 = (Completed 0 out err, w1)"
  shows "load_tags upper tool s =
     (Inr (),
      s\<lparr>tag_entries :=
           map (\<lambda>(tag, entry). (tag, case last_value upper tag (split_on newline (strip out)) of
                                        None \<Rightarrow> [] | Some v \<Rightarrow> v)) (tag_entries s),
         custom_tags_text :=
           join [newline] (filter (\<lambda>line. has_eq line \<and> upper (key_of line) \<notin> fst ` set (tag_entries s))
             (split_on newline (strip out))),
         status_var := ascii ''Loaded tags from '' @ basename file,
         success_var := [],
         invocations := invocations s @
           [[ascii ''metaflac'', ascii ''--version''], [ascii ''metaflac'', ascii ''--export-tags-to=-'', file]],
         world := w1\<rparr>)"
proof -
  let ?ls = "split_on newline (strip out)"
  let ?cleared = "map (\<lambda>(tag, entry). (tag, [])) (tag_entries s)"
  obtain entries custom where p: "parse_lines upper ?ls ?cleared [] = (entries, custom)"
    by (cases "parse_lines upper ?ls ?cleared []")
  have "fst (parse_lines upper ?ls ?cleared []) =
      map (\<lambda>(tag, entry). (tag, case last_value upper tag ?ls of None \<Rightarrow> [] | Some v \<Rightarrow> v)) (tag_entries s)"
    by (simp only: parse_lines_entries map_cleared)
  then have e: "entries =
      map (\<lambda>(tag, entry). (tag, case last_value upper tag ?ls of None \<Rightarrow> [] | Some v \<Rightarrow> v)) (tag_entries s)"
    by (simp only: p fst_conv)
  have "snd (parse_lines upper ?ls ?cleared []) =
      filter (\<lambda>line. has_eq line \<and> upper (key_of line) \<notin> fst ` set (tag_entries s)) ?ls"
    by (simp only: parse_lines_custom cleared_keys append_Nil)
  then have c: "custom =
      filter (\<lambda>line. has_eq line \<and> upper (key_of line) \<notin> fst ` set (tag_entries s)) ?ls"
    by (simp only: p snd_conv)
  have j: "(if custom \<noteq> [] then join [newline] custom else []) = join [newline] custom"
    by simp
  show ?thesis
    using assms(1,2,4) check_metaflac_available [of tool s vout verr w0, OF assms(3)] p j
    by (simp add: load_tags_def run_def clear_form_def e [symmetric] c [symmetric])
qed

lemma by_tag:
  assumes "map fst entries = tags"
  shows "map (\<lambda>(tag, entry). (tag, g tag)) entries = map (\<lambda>tag. (tag, g tag)) tags"
  using assms by (induction entries arbitrary: tags) auto

lemma entry_of_by_tag:
  "tag \<in> set tags \<Longrightarrow> entry_of (map (\<lambda>tag. (tag, g tag)) tags) tag = g tag"
  by (induction tags) (auto simp: entry_of_def)

lemma load_tags_by_field:
  assumes "current_file s = Some file" and "file \<noteq> []"
    and "map fst (tag_entries s) = common_tags"
    and "tool [ascii ''metaflac'', ascii ''--version''] (world s) = (Completed 0 vout verr, w0)"
    and "tool [ascii ''metaflac'', ascii ''--export-tags-to=-'', file] w0 = (Completed 0 out err, w1)"
  shows "tag_entries (snd (load_tags upper tool s)) =
           map (\<lambda>tag. (tag, case last_value upper tag (split_on newline (strip out)) of
                               None \<Rightarrow> [] | Some v \<Rightarrow> v)) common_tags \<and>
         custom_tags_text (snd (load_tags upper tool s)) =
           join [newline]
             (filter (\<lambda>line. has_eq line \<and> upper (key_of line) \<notin> set common_tags)
                (split_on newline (strip out)))"
proof -
  have k: "fst ` set (tag_entries s) = set common_tags"
    using assms(3) by (metis set_map)
  show ?thesis
    using load_tags_result [where tool = tool and s = s, OF assms(1,2,4,5)]
      by_tag [OF assms(3)]
    by (simp add: k)
qed

lemma last_value_pairs: "last_value upper tag (filter has_eq ls) = last_value upper tag ls"
  by (induction ls) (auto split: option.splits)

lemma last_value_Some:
  "last_value upper tag ls = Some v \<Longrightarrow>
   \<exists>line \<in> set ls. has_eq line \<and> upper (key_of line) = tag \<and> value_of line = v"
  by (induction ls) (auto split: option.splits if_splits)

lemma last_value_distinct:
  assumes "distinct (map (\<lambda>line. upper (key_of line)) (filter has_eq ls))"
    and "line \<in> set ls" and "has_eq line"
  shows "last_value upper (upper (key_of line)) ls = Some (value_of line)"
  using assms
proof (induction ls)
  case Nil
  then show ?case by simp
next
  case (Cons a ls)
  show ?case
  proof (cases "line \<in> set ls")
    case True
    then have "last_value upper (upper (key_of line)) ls = Some (value_of line)"
      using Cons by (simp split: if_splits)
    then show ?thesis by simp
  next
    case False
    then have a: "a = line" using Cons.prems(2) by simp
    have fresh: "upper (key_of line) \<notin> (\<lambda>line. upper (key_of line)) ` set (filter has_eq ls)"
      using Cons.prems(1,3) a by simp
    have "last_value upper (upper (key_of line)) ls = None"
      unfolding last_value_None
    proof (intro ballI notI)
      fix l
      assume "l \<in> set ls" and "has_eq l \<and> upper (key_of l) = upper (key_of line)"
      then have "l \<in> set (filter has_eq ls)" and "upper (key_of line) = upper (key_of l)"
        by simp_all
      then have "upper (key_of line) \<in> (\<lambda>line. upper (key_of line)) ` set (filter has_eq ls)"
        by (rule_tac image_eqI)
      then show False using fresh by simp
    qed
    then show ?thesis using a Cons.prems(3) by simp
  qed
qed

lemma custom_lines_join:
  assumes "\<forall>line \<in> set ls. has_eq line \<and> newline \<notin> set line"
  shows "(if join [newline] ls = [] then [] else split_on newline (join [newline] ls)) = ls"
proof (cases ls)
  case Nil
  then show ?thesis by simp
next
  case (Cons l rest)
  then have "hd ls \<noteq> []" using assms by (auto dest: has_eq_nonempty)
  then have "join [newline] ls \<noteq> []" using Cons by (intro join_nonempty) simp_all
  moreover have "split_on newline (join [newline] ls) = ls"
    using Cons assms by (intro split_on_join) auto
  ultimately show ?thesis by simp
qed

lemma populated_fields:
  "filter (\<lambda>(tag, entry). entry \<noteq> []) (map (\<lambda>tag. (tag, g tag)) tags) =
     map (\<lambda>tag. (tag, g tag)) (filter (\<lambda>tag. g tag \<noteq> []) tags)"
  by (induction tags) auto

text \<open>
  Claim C2, as the code has it. With a file selected, the probe passed and the export
  completed with status 0, \<^verbatim>\<open>load_tags\<close> works on the lines of the export text after the
  text as a whole has been trimmed. A line that contains \<^verbatim>\<open>=\<close> is cut at the first
  \<^verbatim>\<open>=\<close>; when the part before it, put in upper case by \<^verbatim>\<open>str.upper\<close>, names a well-known
  field, that field receives the part after it, and the last such line of a field
  decides; a field without such a line is empty, whatever it held before. The other
  lines that contain \<^verbatim>\<open>=\<close> become the custom text, unchanged and in their order, and
  lines without \<^verbatim>\<open>=\<close> are dropped. This holds for every export text and for whatever
  \<^verbatim>\<open>str.upper\<close> does.
\<close>

theorem load_tags_parses_lines:
  assumes "current_file s = Some file" and "file \<noteq> []"
    and "map fst (tag_entries s) = common_tags"
    and "tool [ascii ''metaflac'', ascii ''--version''] (world s) = (Completed 0 vout verr, w0)"
    and "tool [ascii ''metaflac'', ascii ''--export-tags-to=-'', file] w0 = (Completed 0 out err, w1)"
  shows "tag_entries (snd (load_tags upper tool s)) =
           map (\<lambda>tag. (tag, case last_value upper tag (split_on newline (strip out)) of
                               None \<Rightarrow> [] | Some v \<Rightarrow> v)) common_tags \<and>
         custom_tags_text (snd (load_tags upper tool s)) =
           join [newline]
             (filter (\<lambda>line. has_eq line \<and> upper (key_of line) \<notin> set common_tags)
                (split_on newline (strip out)))"
  by (rule load_tags_by_field [where tool = tool and s = s, OF assms])

theorem load_tags_parses_lines_witness:
  "tag_entries (snd (load_tags ascii_upper ideal_metaflac stale_form)) =
     map (\<lambda>tag. (tag, case last_value ascii_upper tag (split_on newline (strip
             (ascii ''TITLE=Song'' @ [newline] @ ascii ''ARTIST=Band'' @ [newline] @
              ascii ''XCUSTOM=1'' @ [newline]))) of
           None \<Rightarrow> [] | Some v \<Rightarrow> v)) common_tags \<and>
   custom_tags_text (snd (load_tags ascii_upper ideal_metaflac stale_form)) =
     join [newline]
       (filter (\<lambda>line. has_eq line \<and> ascii_upper (key_of line) \<notin> set common_tags)
          (split_on newline (strip
             (ascii ''TITLE=Song'' @ [newline] @ ascii ''ARTIST=Band'' @ [newline] @
              ascii ''XCUSTOM=1'' @ [newline])))) \<and>
   entry_of (tag_entries stale_form) (ascii ''TITLE'') = ascii ''Other'' \<and>
   entry_of (tag_entries stale_form) (ascii ''ALBUM'') = ascii ''Old'' \<and>
   custom_tags_text stale_form = ascii ''mood=calm'' \<and>
   entry_of (tag_entries (snd (load_tags ascii_upper ideal_metaflac stale_form))) (ascii ''TITLE'') =
     ascii ''Song'' \<and>
   entry_of (tag_entries (snd (load_tags ascii_upper ideal_metaflac stale_form))) (ascii ''ARTIST'') =
     ascii ''Band'' \<and>
   entry_of (tag_entries (snd (load_tags ascii_upper ideal_metaflac stale_form))) (ascii ''ALBUM'') = [] \<and>
   custom_tags_text (snd (load_tags ascii_upper ideal_metaflac stale_form)) = ascii ''XCUSTOM=1''"
proof -
  have sel: "current_file stale_form = Some (ascii ''/music/song.flac'')" "ascii ''/music/song.flac'' \<noteq> []"
    by (simp_all add: stale_form_def setup_ui_def)
  have keys: "map fst (tag_entries stale_form) = common_tags"
    by code_simp
  have probe: "ideal_metaflac [ascii ''metaflac'', ascii ''--version''] (world stale_form) =
      (Completed 0 (ascii ''metaflac 1.4.3'') [], world stale_form)"
    by (simp add: ideal_metaflac_def ascii_def utf8_size_def)
  have "fst (ideal_metaflac [ascii ''metaflac'', ascii ''--export-tags-to=-'', ascii ''/music/song.flac'']
        song_disk) =
      Completed 0 (ascii ''TITLE=Song'' @ [newline] @ ascii ''ARTIST=Band'' @ [newline] @
        ascii ''XCUSTOM=1'' @ [newline]) []"
    by code_simp
  moreover have "snd (ideal_metaflac [ascii ''metaflac'', ascii ''--export-tags-to=-'', ascii ''/music/song.flac'']
        song_disk) = song_disk"
    by (simp add: ideal_metaflac_def song_disk_def)
  moreover have "world stale_form = song_disk"
    by (simp add: stale_form_def setup_ui_def)
  ultimately have exp: "ideal_metaflac [ascii ''metaflac'', ascii ''--export-tags-to=-'', ascii ''/music/song.flac'']
        (world stale_form) =
      (Completed 0 (ascii ''TITLE=Song'' @ [newline] @ ascii ''ARTIST=Band'' @ [newline] @
        ascii ''XCUSTOM=1'' @ [newline]) [], world stale_form)"
    by (simp add: prod_eq_iff)
  have before:
    "entry_of (tag_entries stale_form) (ascii ''TITLE'') = ascii ''Other''"
    "entry_of (tag_entries stale_form) (ascii ''ALBUM'') = ascii ''Old''"
    "custom_tags_text stale_form = ascii ''mood=calm''"
    by code_simp+
  have loaded:
    "entry_of (tag_entries (snd (load_tags ascii_upper ideal_metaflac stale_form))) (ascii ''TITLE'') =
       ascii ''Song''"
    "entry_of (tag_entries (snd (load_tags ascii_upper ideal_metaflac stale_form))) (ascii ''ARTIST'') =
       ascii ''Band''"
    "entry_of (tag_entries (snd (load_tags ascii_upper ideal_metaflac stale_form))) (ascii ''ALBUM'') = []"
    "custom_tags_text (snd (load_tags ascii_upper ideal_metaflac stale_form)) = ascii ''XCUSTOM=1''"
    by code_simp+
  note parsed = load_tags_parses_lines [where tool = ideal_metaflac and s = stale_form
      and upper = ascii_upper, OF sel keys probe exp]
  show ?thesis
    apply (intro conjI)
            apply (rule parsed [THEN conjunct1])
           apply (rule parsed [THEN conjunct2])
          apply (rule before(1))
         apply (rule before(2))
        apply (rule before(3))
       apply (rule loaded(1))
      apply (rule loaded(2))
     apply (rule loaded(3))
    apply (rule loaded(4))
    done
qed

text \<open>
  Claim C2 as the specification states it fails at the ends of the export text: the only
  line of this export is \<^verbatim>\<open>mood=calm\<close> followed by a blank, its key is not a well-known
  field, and the custom text after loading holds the line without the blank.
\<close>

theorem trailing_blank_is_lost:
  "fst (ideal_metaflac [ascii ''metaflac'', ascii ''--export-tags-to=-'', ascii ''/music/song.flac''] padded_disk) =
     Completed 0 (ascii ''mood=calm '' @ [newline]) [] \<and>
   filter (\<lambda>line. has_eq line \<and> ascii_upper (key_of line) \<notin> set common_tags)
     (split_on newline (ascii ''mood=calm '' @ [newline])) = [ascii ''mood=calm ''] \<and>
   custom_tags_text (snd (load_tags ascii_upper ideal_metaflac
       (setup_ui (Some (ascii ''/music/song.flac'')) padded_disk))) =
     ascii ''mood=calm''"
  by code_simp

text \<open>
  Claim C5, as the code has it. Of the lines of the trimmed export text, let \<open>pairs\<close> be
  those that contain \<^verbatim>\<open>=\<close>, \<open>matching\<close> the pairs whose key, in upper case, names a
  well-known field, and \<open>others\<close> the remaining pairs. In the form that \<^verbatim>\<open>load_tags\<close>
  leaves, the custom lines are \<open>others\<close>, in their order, and there are as many of them as
  there are pairs less the matching ones. Every well-known field holds the value of its
  last matching line, or nothing. The fields that are not empty afterwards are at most as
  many as the matching lines; they are exactly as many when no key occurs twice among the
  matching lines and none of these lines has an empty value.
\<close>

theorem load_tags_counts:
  assumes "current_file s = Some file" and "file \<noteq> []"
    and "map fst (tag_entries s) = common_tags"
    and "tool [ascii ''metaflac'', ascii ''--version''] (world s) = (Completed 0 vout verr, w0)"
    and "tool [ascii ''metaflac'', ascii ''--export-tags-to=-'', file] w0 = (Completed 0 out err, w1)"
    and "pairs = filter has_eq (split_on newline (strip out))"
    and "matching = filter (\<lambda>line. upper (key_of line) \<in> set common_tags) pairs"
    and "others = filter (\<lambda>line. upper (key_of line) \<notin> set common_tags) pairs"
    and "s1 = snd (load_tags upper tool s)"
  shows "custom_lines s1 = others \<and>
         length (custom_lines s1) = length pairs - length matching \<and>
         tag_entries s1 =
           map (\<lambda>tag. (tag, case last_value upper tag pairs of None \<Rightarrow> [] | Some v \<Rightarrow> v))
             common_tags \<and>
         length (filter (\<lambda>(tag, entry). entry \<noteq> []) (tag_entries s1)) \<le> length matching \<and>
         (distinct (map (\<lambda>line. upper (key_of line)) matching) \<and>
          [] \<notin> set (map value_of matching) \<longrightarrow>
            length (filter (\<lambda>(tag, entry). entry \<noteq> []) (tag_entries s1)) = length matching)"
proof -
  let ?ls = "split_on newline (strip out)"
  let ?keys = "map (\<lambda>line. upper (key_of line)) matching"
  let ?g = "\<lambda>tag. case last_value upper tag pairs of None \<Rightarrow> [] | Some v \<Rightarrow> v"
  let ?full = "filter (\<lambda>tag. ?g tag \<noteq> []) common_tags"
  note parsed = load_tags_by_field [where tool = tool and s = s and upper = upper, OF assms(1-5)]
  have lv: "last_value upper tag pairs = last_value upper tag ?ls" for tag
    unfolding assms(6) by (rule last_value_pairs)
  have f: "filter (\<lambda>line. has_eq line \<and> upper (key_of line) \<notin> set common_tags) ?ls = others"
    unfolding assms(6,8) by (simp add: conj_commute)
  have box: "custom_tags_text s1 = join [newline] others"
    using parsed f assms(9) by simp
  have "\<forall>line \<in> set others. has_eq line \<and> newline \<notin> set line"
    unfolding assms(6,8) by (auto dest: split_on_no_sep_inside)
  then have custom: "custom_lines s1 = others"
    unfolding custom_lines_def box by (rule custom_lines_join)
  have "length matching + length others = length pairs"
    unfolding assms(7,8) by (rule sum_length_filter_compl)
  then have len: "length (custom_lines s1) = length pairs - length matching"
    using custom by simp
  have entries: "tag_entries s1 = map (\<lambda>tag. (tag, ?g tag)) common_tags"
    using parsed assms(9) by (simp add: lv)
  have count: "length (filter (\<lambda>(tag, entry). entry \<noteq> []) (tag_entries s1)) = card (set ?full)"
  proof -
    have "distinct ?full" using distinct_common_tags by simp
    then have "card (set ?full) = length ?full" by (rule distinct_card)
    then show ?thesis unfolding entries populated_fields by simp
  qed
  have sub: "set ?full \<subseteq> set ?keys"
  proof
    fix tag
    assume "tag \<in> set ?full"
    then have t: "tag \<in> set common_tags" and "?g tag \<noteq> []" by simp_all
    then obtain v where "last_value upper tag pairs = Some v" by (auto split: option.splits)
    from last_value_Some [OF this] obtain line where
      "line \<in> set pairs" "upper (key_of line) = tag" by blast
    then show "tag \<in> set ?keys" using t unfolding assms(7) by auto
  qed
  have "card (set ?full) \<le> card (set ?keys)"
    using sub by (intro card_mono) simp_all
  also have "\<dots> \<le> length matching"
    using card_length [of ?keys] by simp
  finally have le: "length (filter (\<lambda>(tag, entry). entry \<noteq> []) (tag_entries s1)) \<le> length matching"
    using count by simp
  have eq: "length (filter (\<lambda>(tag, entry). entry \<noteq> []) (tag_entries s1)) = length matching"
    if d: "distinct ?keys" and ne: "[] \<notin> set (map value_of matching)"
  proof -
    have "set ?keys \<subseteq> set ?full"
    proof
      fix tag
      assume "tag \<in> set ?keys"
      then obtain line where l: "line \<in> set matching" "tag = upper (key_of line)" by auto
      then have t: "tag \<in> set common_tags" and p: "line \<in> set pairs" and h: "has_eq line"
        unfolding assms(7) assms(6) by simp_all
      have "filter has_eq matching = matching"
        unfolding assms(7) assms(6) by (auto intro: filter_cong)
      then have "distinct (map (\<lambda>line. upper (key_of line)) (filter has_eq matching))"
        using d by simp
      from last_value_distinct [OF this l(1) h]
      have "last_value upper tag matching = Some (value_of line)" using l(2) by simp
      moreover have "last_value upper tag pairs = last_value upper tag matching"
        unfolding assms(7) using t by (induction pairs) (auto split: option.splits)
      moreover have "value_of line \<in> set (map value_of matching)" using l(1) by simp
      then have "value_of line \<noteq> []" using ne by metis
      ultimately show "tag \<in> set ?full" using t by simp
    qed
    then have "set ?full = set ?keys" using sub by blast
    moreover have "card (set ?keys) = length ?keys" using d by (rule distinct_card)
    ultimately have "card (set ?full) = length matching" by simp
    then show ?thesis using count by simp
  qed
  show ?thesis
    using custom len entries le eq by blast
qed

theorem load_tags_counts_witness:
  "custom_lines (snd (load_tags ascii_upper ideal_metaflac
       (setup_ui (Some (ascii ''/music/song.flac'')) twice_disk))) = [ascii ''mood=calm''] \<and>
   length (custom_lines (snd (load_tags ascii_upper ideal_metaflac
       (setup_ui (Some (ascii ''/music/song.flac'')) twice_disk)))) =
     length [ascii ''TITLE=a'', ascii ''title=b'', ascii ''mood=calm''] -
     length [ascii ''TITLE=a'', ascii ''title=b''] \<and>
   length (filter (\<lambda>(tag, entry). entry \<noteq> [])
     (tag_entries (snd (load_tags ascii_upper ideal_metaflac
       (setup_ui (Some (ascii ''/music/song.flac'')) twice_disk))))) \<le>
     length [ascii ''TITLE=a'', ascii ''title=b''] \<and>
   entry_of (tag_entries (snd (load_tags ascii_upper ideal_metaflac
       (setup_ui (Some (ascii ''/music/song.flac'')) twice_disk)))) (ascii ''TITLE'') = ascii ''b'' \<and>
   length (filter (\<lambda>(tag, entry). entry \<noteq> [])
     (tag_entries (snd (load_tags ascii_upper ideal_metaflac stale_form)))) =
     length [ascii ''TITLE=Song'', ascii ''ARTIST=Band'']"
proof -
  let ?s = "setup_ui (Some (ascii ''/music/song.flac'')) twice_disk :: (ustring \<rightharpoonup> ustring list) app"
  let ?out = "ascii ''TITLE=a'' @ [newline] @ ascii ''title=b'' @ [newline] @ ascii ''mood=calm'' @ [newline]"
  let ?song = "ascii ''TITLE=Song'' @ [newline] @ ascii ''ARTIST=Band'' @ [newline] @ ascii ''XCUSTOM=1'' @ [newline]"
  let ?exp = "[ascii ''metaflac'', ascii ''--export-tags-to=-'', ascii ''/music/song.flac'']"
  have sel: "current_file ?s = Some (ascii ''/music/song.flac'')" "ascii ''/music/song.flac'' \<noteq> []"
    "current_file stale_form = Some (ascii ''/music/song.flac'')"
    by (simp_all add: setup_ui_def stale_form_def)
  have keys: "map fst (tag_entries ?s) = common_tags" "map fst (tag_entries stale_form) = common_tags"
    by (simp add: setup_ui_def comp_def, code_simp)
  have probe: "ideal_metaflac [ascii ''metaflac'', ascii ''--version''] (world ?s) =
      (Completed 0 (ascii ''metaflac 1.4.3'') [], world ?s)"
    "ideal_metaflac [ascii ''metaflac'', ascii ''--version''] (world stale_form) =
      (Completed 0 (ascii ''metaflac 1.4.3'') [], world stale_form)"
    by (simp_all add: ideal_metaflac_def ascii_def utf8_size_def)
  have out: "fst (ideal_metaflac ?exp twice_disk) = Completed 0 ?out []"
    "fst (ideal_metaflac ?exp song_disk) = Completed 0 ?song []"
    by code_simp+
  have same: "snd (ideal_metaflac ?exp twice_disk) = twice_disk"
    "snd (ideal_metaflac ?exp song_disk) = song_disk"
    by (simp_all add: ideal_metaflac_def twice_disk_def song_disk_def)
  have w: "world ?s = twice_disk" "world stale_form = song_disk"
    by (simp_all add: setup_ui_def stale_form_def)
  have exp: "ideal_metaflac ?exp (world ?s) = (Completed 0 ?out [], world ?s)"
    "ideal_metaflac ?exp (world stale_form) = (Completed 0 ?song [], world stale_form)"
    using out same w by (simp_all add: prod_eq_iff)
  have pairs:
    "[ascii ''TITLE=a'', ascii ''title=b'', ascii ''mood=calm''] =
       filter has_eq (split_on newline (strip ?out))"
    "[ascii ''TITLE=Song'', ascii ''ARTIST=Band'', ascii ''XCUSTOM=1''] =
       filter has_eq (split_on newline (strip ?song))"
    by code_simp+
  have matching:
    "[ascii ''TITLE=a'', ascii ''title=b''] =
       filter (\<lambda>line. ascii_upper (key_of line) \<in> set common_tags)
         [ascii ''TITLE=a'', ascii ''title=b'', ascii ''mood=calm'']"
    "[ascii ''TITLE=Song'', ascii ''ARTIST=Band''] =
       filter (\<lambda>line. ascii_upper (key_of line) \<in> set common_tags)
         [ascii ''TITLE=Song'', ascii ''ARTIST=Band'', ascii ''XCUSTOM=1'']"
    by code_simp+
  have others:
    "[ascii ''mood=calm''] =
       filter (\<lambda>line. ascii_upper (key_of line) \<notin> set common_tags)
         [ascii ''TITLE=a'', ascii ''title=b'', ascii ''mood=calm'']"
    "[ascii ''XCUSTOM=1''] =
       filter (\<lambda>line. ascii_upper (key_of line) \<notin> set common_tags)
         [ascii ''TITLE=Song'', ascii ''ARTIST=Band'', ascii ''XCUSTOM=1'']"
    by code_simp+
  have title: "entry_of (tag_entries (snd (load_tags ascii_upper ideal_metaflac ?s))) (ascii ''TITLE'') =
      ascii ''b''"
    by code_simp
  have different:
    "distinct (map (\<lambda>line. ascii_upper (key_of line)) [ascii ''TITLE=Song'', ascii ''ARTIST=Band'']) \<and>
     [] \<notin> set (map value_of [ascii ''TITLE=Song'', ascii ''ARTIST=Band''])"
    by code_simp
  note twice = load_tags_counts [where tool = ideal_metaflac and s = ?s and upper = ascii_upper,
      OF sel(1,2) keys(1) probe(1) exp(1) pairs(1) matching(1) others(1) refl]
  note song = load_tags_counts [where tool = ideal_metaflac and s = stale_form and upper = ascii_upper,
      OF sel(3,2) keys(2) probe(2) exp(2) pairs(2) matching(2) others(2) refl]
  note exact = song [THEN conjunct2, THEN conjunct2, THEN conjunct2, THEN conjunct2,
      THEN mp, OF different]
  show ?thesis
    apply (intro conjI)
        apply (rule twice [THEN conjunct1])
       apply (rule twice [THEN conjunct2, THEN conjunct1])
      apply (rule twice [THEN conjunct2, THEN conjunct2, THEN conjunct2, THEN conjunct1])
     apply (rule title)
    apply (rule exact)
    done
qed

text \<open>
  Claim C5 as the specification states it fails when a well-known key is repeated: of
  the three lines of this export two match the title, so the claim promises two populated
  fields and one custom line, and loading fills the title alone.
\<close>

theorem repeated_key_fills_one_field:
  "fst (ideal_metaflac [ascii ''metaflac'', ascii ''--export-tags-to=-'', ascii ''/music/song.flac''] twice_disk) =
     Completed 0 (ascii ''TITLE=a'' @ [newline] @ ascii ''title=b'' @ [newline] @ ascii ''mood=calm'' @ [newline]) [] \<and>
   length (split_on newline (strip
     (ascii ''TITLE=a'' @ [newline] @ ascii ''title=b'' @ [newline] @ ascii ''mood=calm'' @ [newline]))) = 3 \<and>
   length (filter (\<lambda>line. ascii_upper (key_of line) \<in> set common_tags)
     (split_on newline (strip
       (ascii ''TITLE=a'' @ [newline] @ ascii ''title=b'' @ [newline] @ ascii ''mood=calm'' @ [newline])))) = 2 \<and>
   filter (\<lambda>(tag, entry). entry \<noteq> [])
     (tag_entries (snd (load_tags ascii_upper ideal_metaflac
        (setup_ui (Some (ascii ''/music/song.flac'')) twice_disk)))) =
     [(ascii ''TITLE'', ascii ''b'')]"
  by code_simp

text \<open>
  Claim C9. \<^verbatim>\<open>load_tags\<close> clears the form before it launches the export. When a file is
  selected, the probe succeeds and the export does not complete with status 0 (it exits
  with another status, finds no executable, or raises anything else), every entry of the
  form is empty afterwards and so is the custom text, whatever they held before, and one
  error dialog has been shown.
\<close>

theorem failed_load_leaves_form_empty:
  assumes "current_file s = Some file" and "file \<noteq> []"
    and "tool [ascii ''metaflac'', ascii ''--version''] (world s) = (Completed 0 vout verr, w1)"
    and "tool [ascii ''metaflac'', ascii ''--export-tags-to=-'', file] w1 = (r, w2)"
    and "\<forall>out err. r \<noteq> Completed 0 out err"
  shows "tag_entries (snd (load_tags upper tool s)) = map (\<lambda>(tag, entry). (tag, [])) (tag_entries s) \<and>
         custom_tags_text (snd (load_tags upper tool s)) = [] \<and>
         length (dialogs (snd (load_tags upper tool s))) = Suc (length (dialogs s))"
  using assms check_metaflac_available [of tool s vout verr w1, OF assms(3)]
  by (auto simp: load_tags_def run_def clear_form_def show_dialog_def split: proc.splits exn.splits)

theorem failed_load_leaves_form_empty_witness:
  "tag_entries (snd (load_tags ascii_upper
      (refusing [[ascii ''metaflac'', ascii ''--export-tags-to=-'', ascii ''/music/song.flac'']] ideal_metaflac)
      song_form)) = map (\<lambda>(tag, entry). (tag, [])) (tag_entries song_form) \<and>
   custom_tags_text (snd (load_tags ascii_upper
      (refusing [[ascii ''metaflac'', ascii ''--export-tags-to=-'', ascii ''/music/song.flac'']] ideal_metaflac)
      song_form)) = [] \<and>
   length (dialogs (snd (load_tags ascii_upper
      (refusing [[ascii ''metaflac'', ascii ''--export-tags-to=-'', ascii ''/music/song.flac'']] ideal_metaflac)
      song_form))) = Suc (length (dialogs song_form))"
proof -
  let ?tool = "refusing [[ascii ''metaflac'', ascii ''--export-tags-to=-'', ascii ''/music/song.flac'']] ideal_metaflac"
  have sel: "current_file song_form = Some (ascii ''/music/song.flac'')" "(ascii ''/music/song.flac'') \<noteq> []"
    by (simp_all add: song_form_def setup_ui_def)
  have probe: "?tool [ascii ''metaflac'', ascii ''--version''] (world song_form) =
      (Completed 0 (ascii ''metaflac 1.4.3'') [], song_disk)"
    by (simp add: refusing_def ideal_metaflac_def song_form_def setup_ui_def ascii_def utf8_size_def)
  have exp: "?tool [ascii ''metaflac'', ascii ''--export-tags-to=-'', ascii ''/music/song.flac''] song_disk =
      (Completed 1 [] (ascii ''ERROR''), song_disk)"
    by (simp add: refusing_def)
  have failed: "\<forall>out err. Completed 1 [] (ascii ''ERROR'') \<noteq> Completed 0 out err"
    by simp
  show ?thesis
    by (rule failed_load_leaves_form_empty [where s = song_form and tool = ?tool and upper = ascii_upper,
          OF sel probe exp failed])
qed

section \<open>Properties of saving and loading again\<close>

lemma save_plan_written:
  "save_plan file entries custom = remove_argv file # map (set_tag_argv file) (written entries custom)"
  by (simp add: save_plan_def written_def wanted_def comp_def)

lemma lstrip_id: "s \<noteq> [] \<Longrightarrow> \<not> isspace (hd s) \<Longrightarrow> lstrip s = s"
  by (cases s) (simp_all add: lstrip_def)

lemma rstrip_id: "s \<noteq> [] \<Longrightarrow> \<not> isspace (last s) \<Longrightarrow> rstrip s = s"
  by (induction s rule: rev_induct) (simp_all add: rstrip_def)

lemma rstrip_snoc_space: "isspace c \<Longrightarrow> rstrip (s @ [c]) = rstrip s"
  by (simp add: rstrip_def)

lemma strip_clean: "clean s \<Longrightarrow> strip s = s"
  by (simp add: clean_def strip_def lstrip_id rstrip_id)

lemma export_join:
  "ls \<noteq> [] \<Longrightarrow> concat (map (\<lambda>t. t @ [newline]) ls) = join [newline] ls @ [newline]"
  by (induction "[newline]" ls rule: join.induct) simp_all

lemma hd_join: "ls \<noteq> [] \<Longrightarrow> hd ls \<noteq> [] \<Longrightarrow> hd (join sep ls) = hd (hd ls)"
  by (induction sep ls rule: join.induct) simp_all

lemma last_join: "ls \<noteq> [] \<Longrightarrow> last ls \<noteq> [] \<Longrightarrow> last (join sep ls) = last (last ls)"
proof (induction sep ls rule: join.induct)
  case (3 sep l v va)
  then have "join sep (v # va) \<noteq> []"
    by (induction sep "v # va" arbitrary: v va rule: join.induct) auto
  then show ?case using 3 by simp
qed simp_all

lemma export_lines:
  assumes "ls \<noteq> []" and "\<forall>l \<in> set ls. clean l"
  shows "split_on newline (strip (concat (map (\<lambda>t. t @ [newline]) ls))) = ls"
proof -
  let ?j = "join [newline] ls"
  have h: "hd ls \<noteq> []" "\<not> isspace (hd (hd ls))"
    using assms by (cases ls; simp add: clean_def)+
  have l: "last ls \<noteq> []" "\<not> isspace (last (last ls))"
    using assms last_in_set [of ls] by (auto simp: clean_def)
  have j: "?j \<noteq> []" using assms(1) h(1) by (rule join_nonempty)
  have "lstrip (?j @ [newline]) = ?j @ [newline]"
    using j h assms(1) by (intro lstrip_id) (simp_all add: hd_join)
  moreover have "rstrip (?j @ [newline]) = ?j"
    using j l assms(1) by (simp add: rstrip_snoc_space newline_space rstrip_id last_join)
  ultimately have "strip (concat (map (\<lambda>t. t @ [newline]) ls)) = ?j"
    using assms(1) by (simp add: export_join strip_def)
  moreover have "split_on newline ?j = ls"
    using assms by (intro split_on_join) (auto simp: clean_def)
  ultimately show ?thesis by simp
qed

lemma export_none: "split_on newline (strip (concat (map (\<lambda>t. t @ [newline]) []))) = [[]]"
  by (simp add: strip_def lstrip_def rstrip_def)

lemma lstrip_trimmed: "lstrip s \<noteq> [] \<Longrightarrow> \<not> isspace (hd (lstrip s))"
  unfolding lstrip_def by (rule hd_dropWhile)

lemma rstrip_hd: "rstrip s \<noteq> [] \<Longrightarrow> hd (rstrip s) = hd s"
  by (cases s) (auto simp: rstrip_Nil rstrip_Cons split: if_splits)

lemma rstrip_last: "rstrip s \<noteq> [] \<Longrightarrow> \<not> isspace (last (rstrip s))"
proof -
  assume n: "rstrip s \<noteq> []"
  then have "dropWhile isspace (rev s) \<noteq> []" by (simp add: rstrip_def)
  then have "\<not> isspace (hd (dropWhile isspace (rev s)))" by (rule hd_dropWhile)
  then show ?thesis using n by (simp add: rstrip_def last_rev)
qed

lemma strip_trimmed:
  assumes "strip s \<noteq> []"
  shows "\<not> isspace (hd (strip s))" and "\<not> isspace (last (strip s))"
proof -
  have l: "lstrip s \<noteq> []" using assms by (auto simp: strip_def rstrip_Nil)
  show "\<not> isspace (hd (strip s))"
    using assms lstrip_trimmed [OF l] rstrip_hd [of "lstrip s"] by (simp add: strip_def)
  show "\<not> isspace (last (strip s))"
    using assms rstrip_last [of "lstrip s"] by (simp add: strip_def)
qed

lemma set_strip: "set (strip s) \<subseteq> set s"
proof -
  have "set (rstrip x) \<subseteq> set x" for x
    using set_dropWhileD [of _ isspace "rev x"] by (auto simp: rstrip_def)
  moreover have "set (lstrip x) \<subseteq> set x" for x
    using set_dropWhileD [of _ isspace x] by (auto simp: lstrip_def)
  ultimately show ?thesis unfolding strip_def by blast
qed

lemma clean_strip: "strip l \<noteq> [] \<Longrightarrow> newline \<notin> set l \<Longrightarrow> clean (strip l)"
  using strip_trimmed [of l] set_strip [of l] by (auto simp: clean_def)

lemma ascii_equals_sign [simp]: "ascii ''='' = [equals_sign]"
  by (simp add: ascii_def equals_sign_def)

lemma common_tags_shape:
  "\<forall>tag \<in> set common_tags. tag \<noteq> [] \<and> \<not> isspace (hd tag) \<and> newline \<notin> set tag \<and> \<not> has_eq tag"
  by code_simp

lemma clean_assignment:
  assumes "tag \<in> set common_tags" and "strip e \<noteq> []" and "newline \<notin> set e"
  shows "clean (tag @ ascii ''='' @ strip e)"
proof -
  have t: "tag \<noteq> []" "\<not> isspace (hd tag)" "newline \<notin> set tag"
    using common_tags_shape assms(1) by auto
  have "newline \<noteq> equals_sign" by (simp add: newline_def equals_sign_def)
  then show ?thesis
    using t assms(2,3) strip_trimmed(2) [OF assms(2)] set_strip [of e]
    by (auto simp: clean_def)
qed

lemma entry_of_cases: "entry_of entries tag = [] \<or> entry_of entries tag \<in> snd ` set entries"
  by (auto simp: entry_of_def split: option.splits dest!: map_of_SomeD intro: rev_image_eqI)

lemma wanted_clean: "line \<in> set (wanted custom) \<Longrightarrow> clean line \<and> has_eq line"
  by (auto simp: wanted_def has_eq_strip intro!: clean_strip strip_nonempty dest: split_on_no_sep_inside)

lemma written_clean:
  assumes "\<forall>entry \<in> snd ` set entries. newline \<notin> set entry"
  shows "\<forall>line \<in> set (written entries custom). clean line"
proof
  fix line
  assume "line \<in> set (written entries custom)"
  then consider tag where "tag \<in> set common_tags" "strip (entry_of entries tag) \<noteq> []"
      "line = tag @ ascii ''='' @ strip (entry_of entries tag)"
    | "line \<in> set (wanted custom)"
    by (auto simp: written_def)
  then show "clean line"
  proof cases
    case 1
    have "entry_of entries tag \<in> snd ` set entries"
      using entry_of_cases [of entries tag] 1(2) by (auto simp: strip_def lstrip_def rstrip_def)
    then have "newline \<notin> set (entry_of entries tag)" using assms by blast
    then have "clean (tag @ ascii ''='' @ strip (entry_of entries tag))"
      by (rule clean_assignment [OF 1(1) 1(2)])
    then show ?thesis using 1(3) by simp
  next
    case 2
    then show ?thesis by (simp add: wanted_clean)
  qed
qed

lemma reload_lines:
  assumes "\<forall>line \<in> set ls. clean line"
  shows "last_value upper tag (split_on newline (strip (concat (map (\<lambda>t. t @ [newline]) ls)))) =
           last_value upper tag ls"
    and "filter (\<lambda>line. has_eq line \<and> P line)
           (split_on newline (strip (concat (map (\<lambda>t. t @ [newline]) ls)))) =
         filter (\<lambda>line. has_eq line \<and> P line) ls"
proof -
  have "split_on newline (strip (concat (map (\<lambda>t. t @ [newline]) ls))) = (if ls = [] then [[]] else ls)"
    using assms export_lines [of ls] export_none by simp
  then show "last_value upper tag (split_on newline (strip (concat (map (\<lambda>t. t @ [newline]) ls)))) =
           last_value upper tag ls"
    and "filter (\<lambda>line. has_eq line \<and> P line)
           (split_on newline (strip (concat (map (\<lambda>t. t @ [newline]) ls)))) =
         filter (\<lambda>line. has_eq line \<and> P line) ls"
    by (simp_all add: has_eq_def)
qed

lemma last_value_append:
  "last_value upper tag (a @ b) =
     (case last_value upper tag b of Some v \<Rightarrow> Some v | None \<Rightarrow> last_value upper tag a)"
  by (induction a) (auto split: option.splits)

lemma assignment_parts:
  assumes "\<not> has_eq tag"
  shows "has_eq (tag @ equals_sign # v)" and "key_of (tag @ equals_sign # v) = tag"
    and "value_of (tag @ equals_sign # v) = v"
proof -
  have n: "\<forall>c \<in> set tag. c \<noteq> equals_sign" using assms by (auto simp: has_eq_def)
  show "has_eq (tag @ equals_sign # v)" by (simp add: has_eq_def)
  show "key_of (tag @ equals_sign # v) = tag"
    using n by (simp add: key_of_def takeWhile_append2)
  show "value_of (tag @ equals_sign # v) = v"
    using n by (simp add: value_of_def dropWhile_append2)
qed

lemma last_value_assignments:
  assumes "\<forall>t \<in> set ts. \<not> has_eq t \<and> upper t = t"
  shows "last_value upper tag (map (\<lambda>t. t @ ascii ''='' @ g t) ts) = (if tag \<in> set ts then Some (g tag) else None)"
  using assms by (induction ts) (auto simp: assignment_parts)

lemma last_value_written:
  assumes "tag \<in> set common_tags" and "map upper common_tags = common_tags"
    and "\<forall>line \<in> set (wanted custom). upper (key_of line) \<noteq> tag"
  shows "(case last_value upper tag (written entries custom) of None \<Rightarrow> [] | Some v \<Rightarrow> v) =
           strip (entry_of entries tag)"
proof -
  have fixed: "upper t = t" if "t \<in> set common_tags" for t
    using that map_eq_conv [of upper common_tags "\<lambda>t. t"] assms(2) by simp
  let ?ts = "filter (\<lambda>tag. strip (entry_of entries tag) \<noteq> []) common_tags"
  have "last_value upper tag (wanted custom) = None"
    using assms(3) by (simp add: last_value_None)
  moreover have "last_value upper tag (map (\<lambda>t. t @ ascii ''='' @ strip (entry_of entries t)) ?ts) =
      (if tag \<in> set ?ts then Some (strip (entry_of entries tag)) else None)"
    using common_tags_shape fixed by (intro last_value_assignments) auto
  ultimately show ?thesis
    using assms(1) by (simp add: written_def last_value_append)
qed

lemma set_value_of: "set (value_of line) \<subseteq> set line"
  unfolding value_of_def
  by (meson set_drop_subset set_dropWhileD subset_iff)

lemma wanted_join:
  assumes "\<forall>c \<in> set cs. has_eq c \<and> newline \<notin> set c"
    and "\<forall>line \<in> set (split_on newline (join [newline] cs)). strip line = line"
  shows "wanted (join [newline] cs) = cs"
proof (cases "cs = []")
  case True
  then show ?thesis by (simp add: wanted_def has_eq_def)
next
  case False
  then have sp: "split_on newline (join [newline] cs) = cs"
    using assms(1) by (intro split_on_join) auto
  have "filter has_eq cs = cs" using assms(1) by (intro filter_True) auto
  moreover have "map strip cs = cs" using assms(2) sp by (intro map_idI) auto
  ultimately show ?thesis by (simp add: wanted_def sp)
qed

lemma save_tags_keeps:
  assumes "current_file s = Some file" and "file \<noteq> []"
    and "map fst (tag_entries s) = common_tags"
    and "tool [ascii ''metaflac'', ascii ''--version''] (world s) = (Completed 0 vout verr, w0)"
  shows "current_file (snd (save_tags tool now s)) = current_file s"
    and "tag_entries (snd (save_tags tool now s)) = tag_entries s"
    and "custom_tags_text (snd (save_tags tool now s)) = custom_tags_text s"
    and "\<exists>n. invocations (snd (save_tags tool now s)) =
           invocations s @ take n ([ascii ''metaflac'', ascii ''--version''] #
             save_plan file (tag_entries s) (custom_tags_text s))"
    and "dialogs (snd (save_tags tool now s)) = dialogs s \<Longrightarrow>
         invocations (snd (save_tags tool now s)) =
           invocations s @ [ascii ''metaflac'', ascii ''--version''] #
             save_plan file (tag_entries s) (custom_tags_text s)"
proof -
  let ?plan = "save_plan file (tag_entries s) (custom_tags_text s)"
  let ?probe = "[ascii ''metaflac'', ascii ''--version'']"
  let ?s0 = "s\<lparr>invocations := invocations s @ [?probe], world := w0\<rparr>"
  obtain r s' where r: "run_all tool ?plan ?s0 = (r, s')"
    by (cases "run_all tool ?plan ?s0")
  note eq = save_tags_run_all [where tool = tool and s = s and now = now, OF assms]
  note keeps = run_all_keeps [OF r]
  from run_all_invocations [OF r] obtain n where n:
    "invocations s' = invocations ?s0 @ take n ?plan" "r = Inr () \<longrightarrow> n = length ?plan"
    by blast
  have s2: "snd (save_tags tool now s) =
      (case r of
         Inr u \<Rightarrow> s'\<lparr>status_var := ascii ''Tags saved to '' @ basename file,
                     success_var := now @ ascii '' - Tags saved successfully!''\<rparr>
       | Inl e \<Rightarrow> show_dialog (save_failed e) s')"
    using eq r by (simp split: sum.splits)
  show "current_file (snd (save_tags tool now s)) = current_file s"
    and "tag_entries (snd (save_tags tool now s)) = tag_entries s"
    and "custom_tags_text (snd (save_tags tool now s)) = custom_tags_text s"
    using s2 keeps by (simp_all add: show_dialog_def split: sum.splits)
  have inv: "invocations (snd (save_tags tool now s)) = invocations s @ take (Suc n) (?probe # ?plan)"
    using s2 n(1) by (simp add: show_dialog_def split: sum.splits)
  then show "\<exists>n. invocations (snd (save_tags tool now s)) = invocations s @ take n (?probe # ?plan)"
    by blast
  show "invocations (snd (save_tags tool now s)) = invocations s @ ?probe # ?plan"
    if "dialogs (snd (save_tags tool now s)) = dialogs s"
  proof (cases r)
    case (Inl e)
    then have "dialogs (snd (save_tags tool now s)) = dialogs s @ [save_failed e]"
      using s2 keeps by (simp add: show_dialog_def)
    then show ?thesis using that by simp
  next
    case (Inr u)
    then have "n = length ?plan" using n(2) by simp
    then show ?thesis using inv by simp
  qed
qed




text \<open>
  Claim C3, as the code has it. A file is loaded, the tags shown are saved, and the file
  is loaded again. When the tags that the first load produces have no whitespace at
  either end (neither a value of a well-known field nor a line of the custom text), the
  save ends without an error dialog, and the export after the save lists the tags that
  the save has set, one per line and in the order in which they were set, then the second
  load gives the same entries and the same custom text as the first. The save has
  launched remove-all-tags and one set-tag for each of these tags. The tool is any tool
  that passes the three probes; \<open>map upper common_tags = common_tags\<close> says that
  \<^verbatim>\<open>str.upper\<close> leaves the names of the well-known fields as they are.
\<close>

theorem round_trip_of_trimmed_tags:
  assumes "current_file s = Some file" and "file \<noteq> []"
    and "map fst (tag_entries s) = common_tags"
    and "map upper common_tags = common_tags"
    and "tool [ascii ''metaflac'', ascii ''--version''] (world s) = (Completed 0 vout1 verr1, w0)"
    and "tool [ascii ''metaflac'', ascii ''--export-tags-to=-'', file] w0 = (Completed 0 out1 err1, w1)"
    and "s1 = snd (load_tags upper tool s)"
    and "\<forall>entry \<in> snd ` set (tag_entries s1). strip entry = entry"
    and "\<forall>line \<in> set (split_on newline (custom_tags_text s1)). strip line = line"
    and "tool [ascii ''metaflac'', ascii ''--version''] (world s1) = (Completed 0 vout2 verr2, w2)"
    and "s2 = snd (save_tags tool now s1)"
    and "dialogs s2 = dialogs s1"
    and "tool [ascii ''metaflac'', ascii ''--version''] (world s2) = (Completed 0 vout3 verr3, w3)"
    and "tool [ascii ''metaflac'', ascii ''--export-tags-to=-'', file] w3 = (Completed 0 out2 err2, w4)"
    and "out2 = concat (map (\<lambda>t. t @ [newline]) (written (tag_entries s1) (custom_tags_text s1)))"
  shows "invocations s2 =
           invocations s1 @ [ascii ''metaflac'', ascii ''--version''] # remove_argv file #
             map (set_tag_argv file) (written (tag_entries s1) (custom_tags_text s1)) \<and>
         tag_entries (snd (load_tags upper tool s2)) = tag_entries s1 \<and>
         custom_tags_text (snd (load_tags upper tool s2)) = custom_tags_text s1"
proof -
  let ?ls = "split_on newline (strip out1)"
  let ?g = "\<lambda>tag. case last_value upper tag ?ls of None \<Rightarrow> [] | Some v \<Rightarrow> v"
  let ?cs = "filter (\<lambda>line. has_eq line \<and> upper (key_of line) \<notin> set common_tags) ?ls"
  let ?w = "written (tag_entries s1) (custom_tags_text s1)"
  have fixed: "upper t = t" if "t \<in> set common_tags" for t
    using that map_eq_conv [of upper common_tags "\<lambda>t. t"] assms(4) by simp
  note loaded = load_tags_by_field [where tool = tool and s = s and upper = upper,
      OF assms(1-3,5,6)]
  note result = load_tags_result [where tool = tool and s = s and upper = upper,
      OF assms(1,2,5,6)]
  have e1: "tag_entries s1 = map (\<lambda>tag. (tag, ?g tag)) common_tags"
    using loaded by (simp add: assms(7))
  have t1: "custom_tags_text s1 = join [newline] ?cs"
    using loaded by (simp add: assms(7))
  have sel1: "current_file s1 = Some file"
    using result assms(1) by (simp add: assms(7))
  have keys1: "map fst (tag_entries s1) = common_tags"
    by (simp add: e1 comp_def)
  have nl: "newline \<notin> set line" if "line \<in> set ?ls" for line
    using that by (rule split_on_no_sep_inside)
  have no_nl: "\<forall>entry \<in> snd ` set (tag_entries s1). newline \<notin> set entry"
  proof
    fix entry
    assume "entry \<in> snd ` set (tag_entries s1)"
    then obtain tag where g: "entry = ?g tag" by (auto simp: e1)
    show "newline \<notin> set entry"
    proof (cases "last_value upper tag ?ls")
      case None
      then show ?thesis using g by simp
    next
      case (Some v)
      from last_value_Some [OF this] obtain line where "line \<in> set ?ls" "value_of line = v"
        by blast
      then have "newline \<notin> set v" using nl set_value_of [of line] by blast
      then show ?thesis using g Some by simp
    qed
  qed
  have cs: "\<forall>c \<in> set ?cs. has_eq c \<and> newline \<notin> set c"
    using nl by auto
  have w: "wanted (custom_tags_text s1) = ?cs"
    unfolding t1 using cs assms(9) [unfolded t1] by (rule wanted_join)
  have other: "\<forall>line \<in> set (wanted (custom_tags_text s1)). upper (key_of line) \<noteq> tag"
    if "tag \<in> set common_tags" for tag
    using that by (auto simp: w)
  have trimmed: "strip (entry_of (tag_entries s1) tag) = entry_of (tag_entries s1) tag" for tag
    using entry_of_cases [of "tag_entries s1" tag] assms(8)
    by (auto simp: strip_def lstrip_def rstrip_def)
  note kept = save_tags_keeps [where tool = tool and s = s1 and now = now,
      OF sel1 assms(2) keys1 assms(10)]
  have launched: "invocations s2 =
      invocations s1 @ [ascii ''metaflac'', ascii ''--version''] # remove_argv file #
        map (set_tag_argv file) ?w"
    using kept(5) assms(12) unfolding assms(11) by (simp add: save_plan_written)
  have sel2: "current_file s2 = Some file" and keys2: "map fst (tag_entries s2) = common_tags"
    using kept(1,2) sel1 keys1 unfolding assms(11) by simp_all
  note cl = written_clean [OF no_nl, of "custom_tags_text s1"]
  note reloaded = load_tags_by_field [where tool = tool and s = s2 and upper = upper,
      OF sel2 assms(2) keys2 assms(13,14)]
  have r1: "tag_entries (snd (load_tags upper tool s2)) =
      map (\<lambda>tag. (tag, case last_value upper tag ?w of None \<Rightarrow> [] | Some v \<Rightarrow> v)) common_tags"
    using reloaded [THEN conjunct1] unfolding assms(15) by (simp add: reload_lines(1) [OF cl])
  have r2: "custom_tags_text (snd (load_tags upper tool s2)) =
      join [newline] (filter (\<lambda>line. has_eq line \<and> upper (key_of line) \<notin> set common_tags) ?w)"
    using reloaded [THEN conjunct2] unfolding assms(15) by (simp add: reload_lines(2) [OF cl])
  have "map (\<lambda>tag. (tag, case last_value upper tag ?w of None \<Rightarrow> [] | Some v \<Rightarrow> v)) common_tags =
        map (\<lambda>tag. (tag, ?g tag)) common_tags"
  proof (rule map_cong [OF refl])
    fix tag
    assume t: "tag \<in> set common_tags"
    have "(case last_value upper tag ?w of None \<Rightarrow> [] | Some v \<Rightarrow> v) = entry_of (tag_entries s1) tag"
      using last_value_written [OF t assms(4) other [OF t], of "tag_entries s1"] trimmed by simp
    also have "\<dots> = ?g tag"
      using t by (simp add: e1 entry_of_by_tag)
    finally show "(tag, case last_value upper tag ?w of None \<Rightarrow> [] | Some v \<Rightarrow> v) = (tag, ?g tag)"
      by simp
  qed
  then have entries: "tag_entries (snd (load_tags upper tool s2)) = tag_entries s1"
    using r1 e1 by simp
  let ?wk = "map (\<lambda>tag. tag @ ascii ''='' @ strip (entry_of (tag_entries s1) tag))
       (filter (\<lambda>tag. strip (entry_of (tag_entries s1) tag) \<noteq> []) common_tags)"
  have "filter (\<lambda>line. has_eq line \<and> upper (key_of line) \<notin> set common_tags) ?wk = []"
    using common_tags_shape fixed by (auto simp: filter_empty_conv assignment_parts)
  moreover have "filter (\<lambda>line. has_eq line \<and> upper (key_of line) \<notin> set common_tags) ?cs = ?cs"
    by (intro filter_True) auto
  ultimately have "filter (\<lambda>line. has_eq line \<and> upper (key_of line) \<notin> set common_tags) ?w = ?cs"
    by (simp add: written_def w del: filter_filter)
  then have "custom_tags_text (snd (load_tags upper tool s2)) = custom_tags_text s1"
    using r2 t1 by simp
  then show ?thesis using launched entries by simp
qed

theorem round_trip_of_trimmed_tags_witness:
  "invocations (snd (save_tags ideal_metaflac (ascii ''2024-05-01 12:00:00'')
      (snd (load_tags ascii_upper ideal_metaflac (setup_ui (Some (ascii ''/music/song.flac'')) song_disk))))) =
     invocations (snd (load_tags ascii_upper ideal_metaflac
        (setup_ui (Some (ascii ''/music/song.flac'')) song_disk))) @
     [ascii ''metaflac'', ascii ''--version''] # remove_argv (ascii ''/music/song.flac'') #
       map (set_tag_argv (ascii ''/music/song.flac''))
         (written
            (tag_entries (snd (load_tags ascii_upper ideal_metaflac
               (setup_ui (Some (ascii ''/music/song.flac'')) song_disk))))
            (custom_tags_text (snd (load_tags ascii_upper ideal_metaflac
               (setup_ui (Some (ascii ''/music/song.flac'')) song_disk))))) \<and>
   tag_entries (snd (load_tags ascii_upper ideal_metaflac
      (snd (save_tags ideal_metaflac (ascii ''2024-05-01 12:00:00'')
        (snd (load_tags ascii_upper ideal_metaflac
           (setup_ui (Some (ascii ''/music/song.flac'')) song_disk))))))) =
     tag_entries (snd (load_tags ascii_upper ideal_metaflac
       (setup_ui (Some (ascii ''/music/song.flac'')) song_disk))) \<and>
   custom_tags_text (snd (load_tags ascii_upper ideal_metaflac
      (snd (save_tags ideal_metaflac (ascii ''2024-05-01 12:00:00'')
        (snd (load_tags ascii_upper ideal_metaflac
           (setup_ui (Some (ascii ''/music/song.flac'')) song_disk))))))) =
     custom_tags_text (snd (load_tags ascii_upper ideal_metaflac
       (setup_ui (Some (ascii ''/music/song.flac'')) song_disk)))"
proof -
  let ?s = "setup_ui (Some (ascii ''/music/song.flac'')) song_disk :: (ustring \<rightharpoonup> ustring list) app"
  let ?now = "ascii ''2024-05-01 12:00:00''"
  let ?s1 = "snd (load_tags ascii_upper ideal_metaflac ?s)"
  let ?s2 = "snd (save_tags ideal_metaflac ?now ?s1)"
  let ?probe = "[ascii ''metaflac'', ascii ''--version'']"
  let ?exp = "[ascii ''metaflac'', ascii ''--export-tags-to=-'', ascii ''/music/song.flac'']"
  let ?out1 = "ascii ''TITLE=Song'' @ [newline] @ ascii ''ARTIST=Band'' @ [newline] @
      ascii ''XCUSTOM=1'' @ [newline]"
  have sel: "current_file ?s = Some (ascii ''/music/song.flac'')" "ascii ''/music/song.flac'' \<noteq> []"
    by (simp_all add: setup_ui_def)
  have keys: "map fst (tag_entries ?s) = common_tags"
    by (simp add: setup_ui_def comp_def)
  have fixed: "map ascii_upper common_tags = common_tags"
    by code_simp
  have probe: "ideal_metaflac ?probe (world ?s) = (Completed 0 (ascii ''metaflac 1.4.3'') [], world ?s)"
    "ideal_metaflac ?probe (world ?s1) = (Completed 0 (ascii ''metaflac 1.4.3'') [], world ?s1)"
    "ideal_metaflac ?probe (world ?s2) = (Completed 0 (ascii ''metaflac 1.4.3'') [], world ?s2)"
    by (simp_all add: ideal_metaflac_def ascii_def utf8_size_def)
  have "fst (ideal_metaflac ?exp (world ?s)) = Completed 0 ?out1 []"
    by code_simp
  then have exp1: "ideal_metaflac ?exp (world ?s) =
      (Completed 0 ?out1 [], snd (ideal_metaflac ?exp (world ?s)))"
    by (simp add: prod_eq_iff)
  have "fst (ideal_metaflac ?exp (world ?s2)) =
      Completed 0 (concat (map (\<lambda>t. t @ [newline])
        (written (tag_entries ?s1) (custom_tags_text ?s1)))) []"
    by code_simp
  then have exp2: "ideal_metaflac ?exp (world ?s2) =
      (Completed 0 (concat (map (\<lambda>t. t @ [newline])
         (written (tag_entries ?s1) (custom_tags_text ?s1)))) [],
       snd (ideal_metaflac ?exp (world ?s2)))"
    by (simp add: prod_eq_iff)
  have trimmed_values: "\<forall>entry \<in> snd ` set (tag_entries ?s1). strip entry = entry"
    by code_simp
  have trimmed_lines: "\<forall>line \<in> set (split_on newline (custom_tags_text ?s1)). strip line = line"
    by code_simp
  have through: "dialogs ?s2 = dialogs ?s1"
    by code_simp
  show ?thesis
    by (rule round_trip_of_trimmed_tags [where tool = ideal_metaflac and s = ?s and now = ?now
          and upper = ascii_upper, OF sel keys fixed probe(1) exp1 refl trimmed_values trimmed_lines
          probe(2) refl through probe(3) exp2 refl])
qed

text \<open>
  Claim C3 as the specification states it fails for a value with whitespace at an end:
  this file holds a title that starts with a blank, loading shows it with the blank, and
  after saving and loading again the title has lost it.
\<close>

theorem surrounding_blank_breaks_round_trip:
  "(let s1 = snd (load_tags ascii_upper ideal_metaflac
               (setup_ui (Some (ascii ''/music/song.flac'')) indented_disk));
        s2 = snd (save_tags ideal_metaflac (ascii ''2024-05-01 12:00:00'') s1);
        s3 = snd (load_tags ascii_upper ideal_metaflac s2)
    in entry_of (tag_entries s1) (ascii ''TITLE'') = ascii '' Song'' \<and>
       dialogs s2 = dialogs s1 \<and>
       entry_of (tag_entries s3) (ascii ''TITLE'') = ascii ''Song'')"
  by code_simp

end
